theory Spec2Isabelle
  imports Main "HOL-Library.Sublist"
begin

section \<open>Documents of the three collections\<close>

text \<open>
  The messaging screens (\<^verbatim>\<open>Messages\<close>, the inbox, and \<^verbatim>\<open>Chat\<close>, one thread) of
  \<^verbatim>\<open>src/unnamed/part_000\<close> read and write three Firestore collections: \<^verbatim>\<open>users\<close>,
  \<^verbatim>\<open>conversations\<close> and \<^verbatim>\<open>messages\<close>. Identifiers and texts are JavaScript strings;
  they are modelled as \<^typ>\<open>string\<close> over the ASCII range. The identifier of a thread's
  conversation (the parameter of the route \<^verbatim>\<open>/chat/:conversationId\<close>) and the identifiers
  of the documents of a snapshot are document identifiers. A participant identifier is
  the value of a field and can be any string. A server timestamp is a natural number. A field that the code reads defensively (\<^verbatim>\<open>data.lastMessage || ''\<close>,
  \<^verbatim>\<open>userData?.username || 'Unknown'\<close>) or that a merge write can leave out is optional.
\<close>

type_synonym ident = string
type_synonym timestamp = nat

record user_data =
  u_username :: "string option"
  u_avatarUrl :: "string option"

record conversation_data =
  d_participants :: "ident list option"
  d_lastMessage :: "string option"
  d_lastMessageTime :: "timestamp option"

record message_data =
  conversationId :: ident
  senderId :: ident
  receiverId :: ident
  msg_text :: string
  createdAt :: timestamp
  read :: bool

section \<open>The backend and the requests it receives\<close>

text \<open>
  \<^verbatim>\<open>serverTimestamp()\<close> is a sentinel that the backend replaces by its clock when the
  write commits. The object written by \<^verbatim>\<open>setDoc(..., { merge: true })\<close> is a partial
  conversation document: a field that the object does not mention is \<open>None\<close>.
\<close>

datatype field_time = ServerTimestamp

record conversation_patch =
  p_participants :: "ident list option"
  p_lastMessage :: "string option"
  p_lastMessageTime :: "field_time option"

datatype whereClause =
    Where_conversationId ident
  | Where_receiverId ident
  | Where_read bool

text \<open>
  \<open>GetDoc_users ref\<close> is a read of the document whose path below \<^verbatim>\<open>users\<close> has the
  segments \<open>ref\<close>; for a user's profile that is the one segment of the identifier.
  \<open>AddDoc_messages c s r t rd\<close> stands for
  \<^verbatim>\<open>addDoc(collection(db,'messages'), {conversationId: c, senderId: s, receiverId: r, text: t, read: rd, createdAt: serverTimestamp()})\<close>,
  and \<open>UpdateDoc_messages i rd\<close> for \<^verbatim>\<open>updateDoc(doc(db,'messages',i), {read: rd})\<close>.
\<close>

datatype request =
    GetDoc_users "ident list"
  | GetDoc_conversations ident
  | GetDocs_messages "whereClause list"
  | AddDoc_messages ident ident ident string bool
  | SetDoc_conversations_merge ident conversation_patch
  | UpdateDoc_messages ident bool

datatype error = TypeError | FirestoreError

record backend =
  users_coll :: "ident \<rightharpoonup> user_data"
  conversations_coll :: "ident \<rightharpoonup> conversation_data"
  messages_coll :: "(ident \<times> message_data) list"
  clock :: timestamp
  requests :: "request list"

text \<open>
  What the client does not control: which requests the backend rejects (network failure,
  security rules), and the identifier that \<^verbatim>\<open>addDoc\<close> draws for the new document.
\<close>

record env =
  rejects :: "request \<Rightarrow> bool"
  autoId :: ident

definition received :: "request \<Rightarrow> backend \<Rightarrow> backend" where
  "received r b = b\<lparr>requests := requests b @ [r]\<rparr>"

text \<open>
  The backend holds the documents of the three collections and none below them: a path
  of more than one segment names a document that does not exist.
\<close>

definition getDoc_users ::
  "env \<Rightarrow> backend \<Rightarrow> ident list \<Rightarrow> backend \<times> (error + user_data option)" where
  "getDoc_users e b ref =
     (let r = GetDoc_users ref in
      (received r b,
       if rejects e r then Inl FirestoreError
       else Inr (case ref of [uid] \<Rightarrow> users_coll b uid | _ \<Rightarrow> None)))"

definition getDoc_conversations ::
  "env \<Rightarrow> backend \<Rightarrow> ident \<Rightarrow> backend \<times> (error + conversation_data option)" where
  "getDoc_conversations e b cid =
     (let r = GetDoc_conversations cid in
      (received r b, if rejects e r then Inl FirestoreError else Inr (conversations_coll b cid)))"

fun matches :: "whereClause \<Rightarrow> message_data \<Rightarrow> bool" where
  "matches (Where_conversationId c) m = (conversationId m = c)"
| "matches (Where_receiverId r) m = (receiverId m = r)"
| "matches (Where_read rd) m = (read m = rd)"

definition getDocs_messages ::
  "env \<Rightarrow> backend \<Rightarrow> whereClause list \<Rightarrow> backend \<times> (error + (ident \<times> message_data) list)" where
  "getDocs_messages e b q =
     (let r = GetDocs_messages q in
      (received r b,
       if rejects e r then Inl FirestoreError
       else Inr (filter (\<lambda>d. list_all (\<lambda>w. matches w (snd d)) q) (messages_coll b))))"

text \<open>
  \<^verbatim>\<open>addDoc\<close> creates the document under the drawn identifier with the precondition that
  no document has it; the backend stamps \<^verbatim>\<open>createdAt\<close> and its clock moves on.
\<close>

definition addDoc_messages ::
  "env \<Rightarrow> backend \<Rightarrow> ident \<Rightarrow> ident \<Rightarrow> ident \<Rightarrow> string \<Rightarrow> bool \<Rightarrow> backend \<times> (error + ident)" where
  "addDoc_messages e b c s r t rd =
     (let rq = AddDoc_messages c s r t rd; b1 = received rq b in
      if rejects e rq \<or> autoId e \<in> fst ` set (messages_coll b) then (b1, Inl FirestoreError)
      else (b1\<lparr>messages_coll := messages_coll b @
                 [(autoId e, \<lparr>conversationId = c, senderId = s, receiverId = r, msg_text = t,
                              createdAt = clock b, read = rd\<rparr>)],
               clock := Suc (clock b)\<rparr>,
            Inr (autoId e)))"

definition merge_conversation ::
  "timestamp \<Rightarrow> conversation_patch \<Rightarrow> conversation_data \<Rightarrow> conversation_data" where
  "merge_conversation now p d =
     \<lparr>d_participants = (case p_participants p of None \<Rightarrow> d_participants d | Some ps \<Rightarrow> Some ps),
      d_lastMessage = (case p_lastMessage p of None \<Rightarrow> d_lastMessage d | Some t \<Rightarrow> Some t),
      d_lastMessageTime =
        (case p_lastMessageTime p of None \<Rightarrow> d_lastMessageTime d | Some ServerTimestamp \<Rightarrow> Some now)\<rparr>"

definition empty_conversation :: conversation_data where
  "empty_conversation = \<lparr>d_participants = None, d_lastMessage = None, d_lastMessageTime = None\<rparr>"

definition setDoc_conversations_merge ::
  "env \<Rightarrow> backend \<Rightarrow> ident \<Rightarrow> conversation_patch \<Rightarrow> backend \<times> (error + unit)" where
  "setDoc_conversations_merge e b cid p =
     (let rq = SetDoc_conversations_merge cid p; b1 = received rq b in
      if rejects e rq then (b1, Inl FirestoreError)
      else (b1\<lparr>conversations_coll := (conversations_coll b)(cid \<mapsto>
                 merge_conversation (clock b) p
                   (case conversations_coll b cid of None \<Rightarrow> empty_conversation | Some d \<Rightarrow> d)),
               clock := Suc (clock b)\<rparr>,
            Inr ()))"

text \<open>\<^verbatim>\<open>updateDoc\<close> fails when the document does not exist.\<close>

definition set_read :: "ident \<Rightarrow> bool \<Rightarrow> (ident \<times> message_data) list \<Rightarrow> (ident \<times> message_data) list" where
  "set_read i rd ms = map (\<lambda>d. if fst d = i then (fst d, (snd d)\<lparr>read := rd\<rparr>) else d) ms"

definition updateDoc_messages ::
  "env \<Rightarrow> backend \<Rightarrow> ident \<Rightarrow> bool \<Rightarrow> backend \<times> (error + unit)" where
  "updateDoc_messages e b i rd =
     (let rq = UpdateDoc_messages i rd; b1 = received rq b in
      if rejects e rq \<or> i \<notin> fst ` set (messages_coll b) then (b1, Inl FirestoreError)
      else (b1\<lparr>messages_coll := set_read i rd (messages_coll b), clock := Suc (clock b)\<rparr>, Inr ()))"

section \<open>JavaScript helpers\<close>

text \<open>\<^verbatim>\<open>v || d\<close> on an optional string: \<^verbatim>\<open>undefined\<close> and the empty string are falsy.\<close>

definition or_default :: "string option \<Rightarrow> string \<Rightarrow> string" where
  "or_default v d = (case v of None \<Rightarrow> d | Some s \<Rightarrow> if s = [] then d else s)"

definition is_space :: "char \<Rightarrow> bool" where
  "is_space c = (c \<in> set [CHR 0x09, CHR 0x0A, CHR 0x0B, CHR 0x0C, CHR 0x0D, CHR '' ''])"

definition trim :: "string \<Rightarrow> string" where
  "trim s = rev (dropWhile is_space (rev (dropWhile is_space s)))"

definition lower_char :: "char \<Rightarrow> char" where
  "lower_char c =
     (let n = (of_char c :: nat) in if 65 \<le> n \<and> n \<le> 90 then char_of (n + 32) else c)"

definition toLowerCase :: "string \<Rightarrow> string" where
  "toLowerCase s = map lower_char s"

text \<open>\<^verbatim>\<open>s.includes(t)\<close>: \<open>t\<close> occurs in \<open>s\<close> at some position.\<close>

fun includes_str :: "string \<Rightarrow> string \<Rightarrow> bool" where
  "includes_str [] t = (t = [])"
| "includes_str (c # cs) t = (prefix t (c # cs) \<or> includes_str cs t)"

text \<open>\<^verbatim>\<open>s.split(c)\<close> for a separator of one character.\<close>

fun split_on :: "char \<Rightarrow> string \<Rightarrow> string list" where
  "split_on c [] = [[]]"
| "split_on c (x # xs) =
     (if x = c then [] # split_on c xs
      else (case split_on c xs of [] \<Rightarrow> [[x]] | s # ss \<Rightarrow> (x # s) # ss))"

text \<open>
  \<^verbatim>\<open>doc(db, 'users', i)\<close> of the Firestore SDK, before anything is sent: it throws when
  \<open>i\<close> contains \<^verbatim>\<open>//\<close>; it splits \<open>i\<close> at \<^verbatim>\<open>/\<close> and drops the empty segments; and it
  throws unless the segments, with the one of the collection, are even in number. So it
  throws for the empty string and for \<^verbatim>\<open>a/b\<close>. The result is the path below the
  collection.
\<close>

definition doc_path :: "string \<Rightarrow> error + string list" where
  "doc_path i =
     (if includes_str i ''//'' then Inl FirestoreError
      else (let segments = filter (\<lambda>s. s \<noteq> []) (split_on CHR ''/'' i) in
            if even (Suc (length segments)) then Inr segments else Inl FirestoreError))"

text \<open>
  \<^verbatim>\<open>Promise.all\<close> over the results of the mapped callbacks: it rejects as soon as one of
  them has rejected, and resolves to all the values otherwise.
\<close>

fun promise_all :: "(error + 'a) list \<Rightarrow> error + 'a list" where
  "promise_all [] = Inr []"
| "promise_all (Inl e # rs) = Inl e"
| "promise_all (Inr x # rs) = (case promise_all rs of Inl e \<Rightarrow> Inl e | Inr xs \<Rightarrow> Inr (x # xs))"

text \<open>
  Every mapped callback runs whatever the others do; their reads reach the backend in
  some interleaving, of which the model takes the one in list order.
\<close>

fun run_all :: "(backend \<Rightarrow> 'a \<Rightarrow> backend \<times> 'r) \<Rightarrow> backend \<Rightarrow> 'a list \<Rightarrow> backend \<times> 'r list" where
  "run_all f b [] = (b, [])"
| "run_all f b (x # xs) =
     (case f b x of (b1, r) \<Rightarrow> (case run_all f b1 xs of (b2, rs) \<Rightarrow> (b2, r # rs)))"

section \<open>The inbox: component \<^verbatim>\<open>Messages\<close>\<close>

record Conversation =
  conv_id :: ident
  participants :: "ident list"
  lastMessage :: string
  lastMessageTime :: "timestamp option"
  otherUserId :: ident
  otherUserName :: string
  otherUserAvatar :: string
  unreadCount :: nat

record messages_view =
  conversations :: "Conversation list"
  loading :: bool
  searchTerm :: string

text \<open>
  The callback mapped over \<^verbatim>\<open>snapshot.docs\<close> (lines 40 to 67). Reading \<^verbatim>\<open>.find\<close> of a
  missing \<^verbatim>\<open>participants\<close> field throws, and so does \<^verbatim>\<open>doc(db, 'users', otherUserId)\<close>
  for \<^verbatim>\<open>undefined\<close> and for a string that is no document path, before any request is
  sent.
\<close>

definition resolveEntry ::
  "env \<Rightarrow> ident \<Rightarrow> backend \<Rightarrow> ident \<times> conversation_data \<Rightarrow> backend \<times> (error + Conversation)" where
  "resolveEntry e uid b conversationDoc =
     (case d_participants (snd conversationDoc) of
        None \<Rightarrow> (b, Inl TypeError)
      | Some ps \<Rightarrow>
          (case find (\<lambda>i. i \<noteq> uid) ps of
             None \<Rightarrow> (b, Inl TypeError)
           | Some other \<Rightarrow>
               (case doc_path other of
                  Inl err \<Rightarrow> (b, Inl err)
                | Inr ref \<Rightarrow>
                    (case getDoc_users e b ref of
                       (b1, Inl err) \<Rightarrow> (b1, Inl err)
                     | (b1, Inr userData) \<Rightarrow>
                         (case getDocs_messages e b1
                                 [Where_conversationId (fst conversationDoc), Where_receiverId uid,
                                  Where_read False] of
                            (b2, Inl err) \<Rightarrow> (b2, Inl err)
                          | (b2, Inr unreadSnapshot) \<Rightarrow>
                              (b2, Inr
                                \<lparr>conv_id = fst conversationDoc,
                                 participants = ps,
                                 lastMessage = or_default (d_lastMessage (snd conversationDoc)) [],
                                 lastMessageTime = d_lastMessageTime (snd conversationDoc),
                                 otherUserId = other,
                                 otherUserName =
                                   or_default
                                     (case userData of None \<Rightarrow> None | Some u \<Rightarrow> u_username u)
                                     ''Unknown'',
                                 otherUserAvatar =
                                   or_default
                                     (case userData of None \<Rightarrow> None | Some u \<Rightarrow> u_avatarUrl u) [],
                                 unreadCount = length unreadSnapshot\<rparr>))))))"

text \<open>
  The snapshot listener of the inbox (lines 38 to 72). The awaited \<^verbatim>\<open>Promise.all\<close> is not
  inside any \<^verbatim>\<open>try\<close>: when it rejects, the listener ends there and neither setter runs.
  The third component of the result is that unhandled rejection.
\<close>

definition onSnapshot_conversations ::
  "env \<Rightarrow> ident \<Rightarrow> backend \<Rightarrow> messages_view \<Rightarrow> (ident \<times> conversation_data) list
     \<Rightarrow> backend \<times> messages_view \<times> error option" where
  "onSnapshot_conversations e uid b st snapshot =
     (case run_all (resolveEntry e uid) b snapshot of
        (b1, results) \<Rightarrow>
          (case promise_all results of
             Inl err \<Rightarrow> (b1, st, Some err)
           | Inr conversationsData \<Rightarrow>
               (b1, st\<lparr>conversations := conversationsData, loading := False\<rparr>, None)))"

definition setSearchTerm :: "string \<Rightarrow> messages_view \<Rightarrow> messages_view" where
  "setSearchTerm v st = st\<lparr>searchTerm := v\<rparr>"

definition filteredConversations :: "messages_view \<Rightarrow> Conversation list" where
  "filteredConversations st =
     filter (\<lambda>conv. includes_str (toLowerCase (otherUserName conv)) (toLowerCase (searchTerm st)))
       (conversations st)"

section \<open>One thread: component \<^verbatim>\<open>Chat\<close>\<close>

record OtherUser =
  other_id :: ident
  username :: string
  avatarUrl :: string

record toast =
  title :: string
  description :: string

text \<open>
  The state of the component: the four \<^verbatim>\<open>useState\<close> cells, the toasts shown and the
  route that \<^verbatim>\<open>navigate\<close> was last called with. A message of the list is a document
  identifier with the document's fields.
\<close>

record chat_view =
  messages :: "(ident \<times> message_data) list"
  newMessage :: string
  otherUser :: "OtherUser option"
  chat_loading :: bool
  toasts :: "toast list"
  navigated :: "string option"

text \<open>
  The body of the \<^verbatim>\<open>try\<close> of \<^verbatim>\<open>loadConversation\<close> (lines 253 to 279): \<open>Inl\<close> is a
  throw, which happens before any setter has run. \<^verbatim>\<open>doc(db, 'users', otherUserId)\<close>
  throws as in the inbox.
\<close>

definition loadConversation_try ::
  "env \<Rightarrow> ident \<Rightarrow> ident \<Rightarrow> backend \<Rightarrow> chat_view \<Rightarrow> backend \<times> (error + chat_view)" where
  "loadConversation_try e uid cid b st =
     (case getDoc_conversations e b cid of
        (b1, Inl err) \<Rightarrow> (b1, Inl err)
      | (b1, Inr None) \<Rightarrow>
          (b1, Inr (st\<lparr>toasts := toasts st @
                          [\<lparr>title = ''Error'', description = ''Conversation not found''\<rparr>],
                        navigated := Some ''/messages''\<rparr>))
      | (b1, Inr (Some conversationData)) \<Rightarrow>
          (case d_participants conversationData of
             None \<Rightarrow> (b1, Inl TypeError)
           | Some ps \<Rightarrow>
               (case find (\<lambda>i. i \<noteq> uid) ps of
                  None \<Rightarrow> (b1, Inl TypeError)
                | Some other \<Rightarrow>
                    (case doc_path other of
                       Inl err \<Rightarrow> (b1, Inl err)
                     | Inr ref \<Rightarrow>
                         (case getDoc_users e b1 ref of
                            (b2, Inl err) \<Rightarrow> (b2, Inl err)
                          | (b2, Inr None) \<Rightarrow> (b2, Inr (st\<lparr>chat_loading := False\<rparr>))
                          | (b2, Inr (Some userData)) \<Rightarrow>
                              (b2, Inr (st\<lparr>otherUser := Some
                                            \<lparr>other_id = other,
                                             username = or_default (u_username userData) ''Unknown'',
                                             avatarUrl = or_default (u_avatarUrl userData) []\<rparr>,
                                          chat_loading := False\<rparr>)))))))"

definition loadConversation ::
  "env \<Rightarrow> ident \<Rightarrow> ident \<Rightarrow> backend \<Rightarrow> chat_view \<Rightarrow> backend \<times> chat_view" where
  "loadConversation e uid cid b st =
     (case loadConversation_try e uid cid b st of
        (b1, Inl err) \<Rightarrow> (b1, st\<lparr>chat_loading := False\<rparr>)
      | (b1, Inr st1) \<Rightarrow> (b1, st1))"

text \<open>
  The loop \<^verbatim>\<open>for (const msg of unreadMessages) await updateDoc(...)\<close>: a rejected write
  throws out of the loop.
\<close>

fun markRead :: "env \<Rightarrow> backend \<Rightarrow> (ident \<times> message_data) list \<Rightarrow> backend \<times> error option" where
  "markRead e b [] = (b, None)"
| "markRead e b (msg # rest) =
     (case updateDoc_messages e b (fst msg) True of
        (b1, Inl err) \<Rightarrow> (b1, Some err)
      | (b1, Inr u) \<Rightarrow> markRead e b1 rest)"

definition unreadMessages :: "ident \<Rightarrow> (ident \<times> message_data) list \<Rightarrow> (ident \<times> message_data) list" where
  "unreadMessages uid messagesData =
     filter (\<lambda>msg. receiverId (snd msg) = uid \<and> \<not> read (snd msg)) messagesData"

text \<open>
  The snapshot listener of the thread (lines 295 to 313). Nothing catches a rejected
  \<^verbatim>\<open>updateDoc\<close>; the third component of the result is that unhandled rejection.
\<close>

definition onSnapshot_messages ::
  "env \<Rightarrow> ident \<Rightarrow> backend \<Rightarrow> chat_view \<Rightarrow> (ident \<times> message_data) list
     \<Rightarrow> backend \<times> chat_view \<times> error option" where
  "onSnapshot_messages e uid b st messagesData =
     (case markRead e b (unreadMessages uid messagesData) of
        (b1, r) \<Rightarrow> (b1, st\<lparr>messages := messagesData\<rparr>, r))"

text \<open>
  \<^verbatim>\<open>handleSendMessage\<close> (lines 322 to 356). \<open>user\<close> is the identifier of the signed-in
  user, if any; \<open>cid\<close> is the route parameter, falsy when missing or empty.
\<close>

definition sendMessage_try ::
  "env \<Rightarrow> ident \<Rightarrow> ident \<Rightarrow> ident \<Rightarrow> backend \<Rightarrow> chat_view \<Rightarrow> backend \<times> (error + chat_view)" where
  "sendMessage_try e uid other cid b st =
     (case addDoc_messages e b cid uid other (trim (newMessage st)) False of
        (b1, Inl err) \<Rightarrow> (b1, Inl err)
      | (b1, Inr new_id) \<Rightarrow>
          (case setDoc_conversations_merge e b1 cid
                  \<lparr>p_participants = None, p_lastMessage = Some (trim (newMessage st)),
                   p_lastMessageTime = Some ServerTimestamp\<rparr> of
             (b2, Inl err) \<Rightarrow> (b2, Inl err)
           | (b2, Inr u) \<Rightarrow> (b2, Inr (st\<lparr>newMessage := []\<rparr>))))"

definition handleSendMessage ::
  "env \<Rightarrow> ident option \<Rightarrow> ident option \<Rightarrow> backend \<Rightarrow> chat_view \<Rightarrow> backend \<times> chat_view" where
  "handleSendMessage e user cid b st =
     (if trim (newMessage st) = [] \<or> user = None \<or> otherUser st = None \<or> cid = None \<or> cid = Some []
      then (b, st)
      else
        (case (user, otherUser st, cid) of
           (Some uid, Some other, Some c) \<Rightarrow>
             (case sendMessage_try e uid (other_id other) c b st of
                (b1, Inl err) \<Rightarrow>
                  (b1, st\<lparr>toasts := toasts st @
                            [\<lparr>title = ''Error'', description = ''Failed to send message''\<rparr>]\<rparr>)
              | (b1, Inr st1) \<Rightarrow> (b1, st1))
         | _ \<Rightarrow> (b, st)))"

section \<open>Names for the two writes of a send\<close>

abbreviation summary_patch :: "string \<Rightarrow> conversation_patch" where
  "summary_patch t \<equiv>
     \<lparr>p_participants = None, p_lastMessage = Some t, p_lastMessageTime = Some ServerTimestamp\<rparr>"

abbreviation message_append :: "ident \<Rightarrow> ident \<Rightarrow> ident \<Rightarrow> string \<Rightarrow> request" where
  "message_append c uid other t \<equiv> AddDoc_messages c uid other t False"

abbreviation summary_upsert :: "ident \<Rightarrow> string \<Rightarrow> request" where
  "summary_upsert c t \<equiv> SetDoc_conversations_merge c (summary_patch t)"

section \<open>Relating the message collection before and after an operation\<close>

text \<open>
  \<open>keeps_read old new\<close>: every record of \<open>old\<close> is still there, at its place and under
  its identifier, and a record that was read is still read. \<open>marked_read i ms\<close>: the
  collection has a record \<open>i\<close>, and it is read.
\<close>

definition keeps_read :: "(ident \<times> message_data) list \<Rightarrow> (ident \<times> message_data) list \<Rightarrow> bool" where
  "keeps_read old new =
     (length old \<le> length new \<and>
      list_all2 (\<lambda>d d'. fst d' = fst d \<and> (read (snd d) \<longrightarrow> read (snd d')))
        old (take (length old) new))"

definition marked_read :: "ident \<Rightarrow> (ident \<times> message_data) list \<Rightarrow> bool" where
  "marked_read i ms = (i \<in> fst ` set ms \<and> list_all (\<lambda>d. fst d = i \<longrightarrow> read (snd d)) ms)"

text \<open>
  \<open>write_fails e b m\<close>: against backend \<open>b\<close> the read-marking write for message \<open>m\<close>
  fails, because the backend rejects it or because the collection has no such record.
\<close>

definition write_fails :: "env \<Rightarrow> backend \<Rightarrow> ident \<times> message_data \<Rightarrow> bool" where
  "write_fails e b m =
     (rejects e (UpdateDoc_messages (fst m) True) \<or> fst m \<notin> fst ` set (messages_coll b))"

section \<open>Letters up to case\<close>

text \<open>
  The capital letters of the ASCII range with their small letters, and the relation of
  two characters that are equal or are the two cases of one letter.
\<close>

definition letters :: "(char \<times> char) list" where
  "letters = zip ''ABCDEFGHIJKLMNOPQRSTUVWXYZ'' ''abcdefghijklmnopqrstuvwxyz''"

definition same_letter :: "char \<Rightarrow> char \<Rightarrow> bool" where
  "same_letter a b = (a = b \<or> (a, b) \<in> set letters \<or> (b, a) \<in> set letters)"

section \<open>A small backend used for the concrete instances\<close>

text \<open>
  Users \<open>u1\<close>, \<open>u2\<close> and \<open>u3\<close>; only \<open>u2\<close> has a profile record. Conversation \<open>c1\<close> is
  between \<open>u1\<close> and \<open>u2\<close>, \<open>c2\<close> between \<open>u1\<close> and \<open>u3\<close>.
\<close>

definition msg :: "ident \<Rightarrow> ident \<Rightarrow> ident \<Rightarrow> string \<Rightarrow> timestamp \<Rightarrow> bool \<Rightarrow> message_data" where
  "msg c s r t ts rd =
     \<lparr>conversationId = c, senderId = s, receiverId = r, msg_text = t, createdAt = ts, read = rd\<rparr>"

definition ex_c1 :: conversation_data where
  "ex_c1 = \<lparr>d_participants = Some [''u1'', ''u2''], d_lastMessage = Some ''see you'',
            d_lastMessageTime = Some 3\<rparr>"

definition ex_c2 :: conversation_data where
  "ex_c2 = \<lparr>d_participants = Some [''u3'', ''u1''], d_lastMessage = Some ''ping'',
            d_lastMessageTime = Some 4\<rparr>"

definition ex_thread :: "(ident \<times> message_data) list" where
  "ex_thread =
     [(''m1'', msg ''c1'' ''u2'' ''u1'' ''hello'' 1 False),
      (''m2'', msg ''c1'' ''u1'' ''u2'' ''hi'' 2 False),
      (''m3'', msg ''c1'' ''u2'' ''u1'' ''see you'' 3 False)]"

definition ex_backend :: backend where
  "ex_backend =
     \<lparr>users_coll = [''u2'' \<mapsto> \<lparr>u_username = Some ''Bob'', u_avatarUrl = None\<rparr>],
      conversations_coll = [''c1'' \<mapsto> ex_c1, ''c2'' \<mapsto> ex_c2],
      messages_coll = ex_thread @ [(''m4'', msg ''c2'' ''u3'' ''u1'' ''ping'' 4 False)],
      clock = 5,
      requests = []\<rparr>"

definition ex_inbox_snapshot :: "(ident \<times> conversation_data) list" where
  "ex_inbox_snapshot = [(''c2'', ex_c2), (''c1'', ex_c1)]"

definition ex_env :: env where
  "ex_env = \<lparr>rejects = (\<lambda>r. False), autoId = ''m5''\<rparr>"

definition env_profile_down :: env where
  "env_profile_down = \<lparr>rejects = (\<lambda>r. r = GetDoc_users [''u2'']), autoId = ''m5''\<rparr>"

definition env_update_down :: env where
  "env_update_down = \<lparr>rejects = (\<lambda>r. r = UpdateDoc_messages ''m1'' True), autoId = ''m5''\<rparr>"

definition env_summary_down :: env where
  "env_summary_down =
     \<lparr>rejects = (\<lambda>r. case r of SetDoc_conversations_merge c p \<Rightarrow> True | _ \<Rightarrow> False),
      autoId = ''m5''\<rparr>"

definition ex_inbox :: messages_view where
  "ex_inbox = \<lparr>conversations = [], loading = True, searchTerm = []\<rparr>"

definition ex_chat :: chat_view where
  "ex_chat = \<lparr>messages = [], newMessage = [], otherUser = None, chat_loading = True,
              toasts = [], navigated = None\<rparr>"

definition ex_draft :: chat_view where
  "ex_draft = ex_chat\<lparr>newMessage := '' yo '',
                       otherUser := Some \<lparr>other_id = ''u2'', username = ''Bob'', avatarUrl = []\<rparr>,
                       chat_loading := False\<rparr>"

definition ex_thread_read :: "(ident \<times> message_data) list" where
  "ex_thread_read =
     [(''m1'', msg ''c1'' ''u2'' ''u1'' ''hello'' 1 True),
      (''m2'', msg ''c1'' ''u1'' ''u2'' ''hi'' 2 False),
      (''m3'', msg ''c1'' ''u2'' ''u1'' ''see you'' 3 True)]"

definition ex_resolved :: messages_view where
  "ex_resolved =
     \<lparr>conversations =
        [\<lparr>conv_id = ''c2'', participants = [''u3'', ''u1''], lastMessage = ''ping'',
          lastMessageTime = Some 4, otherUserId = ''u3'', otherUserName = ''Unknown'',
          otherUserAvatar = [], unreadCount = 1\<rparr>,
         \<lparr>conv_id = ''c1'', participants = [''u1'', ''u2''], lastMessage = ''see you'',
          lastMessageTime = Some 3, otherUserId = ''u2'', otherUserName = ''Bob'',
          otherUserAvatar = [], unreadCount = 2\<rparr>],
      loading = False, searchTerm = []\<rparr>"


section \<open>Basic facts about the backend operations\<close>

lemma received_simps [simp]:
  "users_coll (received r b) = users_coll b"
  "conversations_coll (received r b) = conversations_coll b"
  "messages_coll (received r b) = messages_coll b"
  "clock (received r b) = clock b"
  "requests (received r b) = requests b @ [r]"
  by (simp_all add: received_def)

lemma includes_str_sublist: "includes_str s t = sublist t s"
  by (induction s) (auto simp: sublist_Cons_right)

lemma split_on_absent: "c \<notin> set s \<Longrightarrow> split_on c s = [s]"
  by (induction s) auto

lemma doc_path_id:
  assumes "i \<noteq> []" and "CHR ''/'' \<notin> set i"
  shows "doc_path i = Inr [i]"
proof -
  have "\<not> includes_str i ''//''"
  proof
    assume "includes_str i ''//''"
    then have "sublist ''//'' i" by (simp add: includes_str_sublist)
    then have "set ''//'' \<subseteq> set i" by (rule set_mono_sublist)
    with assms(2) show False by simp
  qed
  with assms show ?thesis by (simp add: doc_path_def split_on_absent)
qed

lemma promise_all_Inr: "promise_all rs = Inr xs \<Longrightarrow> rs = map Inr xs"
  by (induction rs arbitrary: xs rule: promise_all.induct) (auto split: sum.splits)

lemma promise_all_Inl: "promise_all rs = Inl err \<Longrightarrow> Inl err \<in> set rs"
  by (induction rs rule: promise_all.induct) (auto split: sum.splits)

section \<open>The unread count of an inbox entry\<close>

lemma resolveEntry_messages_coll:
  "resolveEntry e uid b cd = (b', r) \<Longrightarrow> messages_coll b' = messages_coll b"
  by (auto simp: resolveEntry_def getDoc_users_def getDocs_messages_def Let_def
      split: option.splits sum.splits prod.splits if_splits)

lemma resolveEntry_unread:
  "resolveEntry e uid b cd = (b', Inr c) \<Longrightarrow>
     conv_id c = fst cd \<and>
     unreadCount c =
       length (filter (\<lambda>d. conversationId (snd d) = fst cd \<and> receiverId (snd d) = uid
                            \<and> \<not> read (snd d)) (messages_coll b))"
  by (auto simp: resolveEntry_def getDoc_users_def getDocs_messages_def Let_def
      split: option.splits sum.splits prod.splits if_splits)

lemma run_all_unread:
  "run_all (resolveEntry e uid) b snapshot = (b', map Inr cs) \<Longrightarrow>
     messages_coll b' = messages_coll b \<and>
     list_all2 (\<lambda>cd c. conv_id c = fst cd \<and>
        unreadCount c =
          length (filter (\<lambda>d. conversationId (snd d) = fst cd \<and> receiverId (snd d) = uid
                               \<and> \<not> read (snd d)) (messages_coll b))) snapshot cs"
proof (induction snapshot arbitrary: b b' cs)
  case Nil
  then show ?case by simp
next
  case (Cons cd snapshot)
  obtain b1 r where r: "resolveEntry e uid b cd = (b1, r)"
    by (cases "resolveEntry e uid b cd")
  obtain b2 rs where rs: "run_all (resolveEntry e uid) b1 snapshot = (b2, rs)"
    by (cases "run_all (resolveEntry e uid) b1 snapshot")
  from Cons.prems r rs have eq: "b' = b2" "r # rs = map Inr cs" by simp_all
  then obtain c cs' where cs: "cs = c # cs'" "r = Inr c" "rs = map Inr cs'"
    by (cases cs) auto
  have m1: "messages_coll b1 = messages_coll b"
    using r by (rule resolveEntry_messages_coll)
  from Cons.IH [of b1 b2 cs'] rs cs m1 resolveEntry_unread [of e uid b cd b1 c] r eq
  show ?case by simp
qed

text \<open>
  C1. When the inbox listener has processed a snapshot for actor \<open>uid\<close>, the list it
  stores has one entry per conversation of the snapshot, and the unread count of each
  entry is the number of records of the message collection, as it is when the count is
  queried, whose conversation is the entry's, whose receiver is \<open>uid\<close> and whose read
  flag is false.
\<close>

theorem unreadCount_counts_store:
  assumes "onSnapshot_conversations e uid b st snapshot = (b', st', None)"
  shows "map conv_id (conversations st') = map fst snapshot \<and>
         messages_coll b' = messages_coll b \<and>
         (\<forall>c \<in> set (conversations st').
            unreadCount c =
              length (filter (\<lambda>d. conversationId (snd d) = conv_id c \<and> receiverId (snd d) = uid
                                   \<and> \<not> read (snd d)) (messages_coll b)))"
proof -
  obtain b1 rs where run: "run_all (resolveEntry e uid) b snapshot = (b1, rs)"
    by (cases "run_all (resolveEntry e uid) b snapshot")
  with assms obtain cs where cs: "promise_all rs = Inr cs" "b' = b1"
    "st' = st\<lparr>conversations := cs, loading := False\<rparr>"
    by (auto simp: onSnapshot_conversations_def split: sum.splits)
  from cs(1) have "rs = map Inr cs" by (rule promise_all_Inr)
  with run have "run_all (resolveEntry e uid) b snapshot = (b1, map Inr cs)" by simp
  from run_all_unread [OF this]
  have m: "messages_coll b1 = messages_coll b"
    and l: "list_all2 (\<lambda>cd c. conv_id c = fst cd \<and>
        unreadCount c =
          length (filter (\<lambda>d. conversationId (snd d) = fst cd \<and> receiverId (snd d) = uid
                               \<and> \<not> read (snd d)) (messages_coll b))) snapshot cs"
    by simp_all
  from l have ids: "map conv_id cs = map fst snapshot"
    by (induction rule: list_all2_induct) simp_all
  from l have cnt: "\<forall>c \<in> set cs. unreadCount c =
      length (filter (\<lambda>d. conversationId (snd d) = conv_id c \<and> receiverId (snd d) = uid
                           \<and> \<not> read (snd d)) (messages_coll b))"
    by (induction rule: list_all2_induct) simp_all
  from ids cnt m cs show ?thesis by simp
qed

theorem unreadCount_counts_store_witness:
  "snd (snd (onSnapshot_conversations ex_env ''u1'' ex_backend ex_inbox ex_inbox_snapshot)) = None \<and>
   map unreadCount
     (conversations (fst (snd (onSnapshot_conversations ex_env ''u1'' ex_backend ex_inbox
        ex_inbox_snapshot)))) = [1, 2]"
proof -
  have ok: "snd (snd (onSnapshot_conversations ex_env ''u1'' ex_backend ex_inbox ex_inbox_snapshot)) = None"
    by (simp add: ex_env_def ex_backend_def ex_c1_def ex_c2_def ex_thread_def msg_def ex_inbox_def ex_inbox_snapshot_def
        onSnapshot_conversations_def resolveEntry_def getDoc_users_def
        getDocs_messages_def received_def or_default_def doc_path_id)
  then have "onSnapshot_conversations ex_env ''u1'' ex_backend ex_inbox ex_inbox_snapshot =
      (fst (onSnapshot_conversations ex_env ''u1'' ex_backend ex_inbox ex_inbox_snapshot),
       fst (snd (onSnapshot_conversations ex_env ''u1'' ex_backend ex_inbox ex_inbox_snapshot)),
       None)"
    by (metis prod.collapse)
  from unreadCount_counts_store [OF this]
  have "\<forall>c \<in> set (conversations (fst (snd (onSnapshot_conversations ex_env ''u1'' ex_backend
          ex_inbox ex_inbox_snapshot)))).
      unreadCount c =
        length (filter (\<lambda>d. conversationId (snd d) = conv_id c \<and> receiverId (snd d) = ''u1''
                             \<and> \<not> read (snd d)) (messages_coll ex_backend))"
    by simp
  then show ?thesis using ok by (simp add: ex_env_def ex_backend_def ex_c1_def ex_c2_def ex_thread_def msg_def ex_inbox_def ex_inbox_snapshot_def
        onSnapshot_conversations_def resolveEntry_def getDoc_users_def
        getDocs_messages_def received_def or_default_def doc_path_id)
qed


section \<open>Sending a message\<close>

lemma sendMessage_try_add_fails:
  assumes "rejects e (message_append c uid other (trim (newMessage st))) \<or>
           autoId e \<in> fst ` set (messages_coll b)"
  shows "sendMessage_try e uid other c b st =
           (received (message_append c uid other (trim (newMessage st))) b, Inl FirestoreError)"
  using assms by (auto simp: sendMessage_try_def addDoc_messages_def Let_def)

lemma sendMessage_try_add_ok:
  assumes "\<not> rejects e (message_append c uid other (trim (newMessage st)))"
    and "autoId e \<notin> fst ` set (messages_coll b)"
  shows "\<exists>b' r. sendMessage_try e uid other c b st = (b', r) \<and>
     requests b' = requests b @
       [message_append c uid other (trim (newMessage st)), summary_upsert c (trim (newMessage st))] \<and>
     messages_coll b' = messages_coll b @
       [(autoId e, \<lparr>conversationId = c, senderId = uid, receiverId = other,
                    msg_text = trim (newMessage st), createdAt = clock b, read = False\<rparr>)] \<and>
     users_coll b' = users_coll b \<and>
     (if rejects e (summary_upsert c (trim (newMessage st)))
      then r = Inl FirestoreError \<and> conversations_coll b' = conversations_coll b
      else r = Inr (st\<lparr>newMessage := []\<rparr>) \<and>
           conversations_coll b' = (conversations_coll b)(c \<mapsto>
             \<lparr>d_participants = (case conversations_coll b c of None \<Rightarrow> None | Some d \<Rightarrow> d_participants d),
              d_lastMessage = Some (trim (newMessage st)),
              d_lastMessageTime = Some (Suc (clock b))\<rparr>))"
  using assms
  by (auto simp: sendMessage_try_def addDoc_messages_def setDoc_conversations_merge_def Let_def
      merge_conversation_def empty_conversation_def received_def split: option.splits)

lemma handleSendMessage_guard:
  "trim (newMessage st) = [] \<or> user = None \<or> otherUser st = None \<or> cid = None \<or> cid = Some []
     \<Longrightarrow> handleSendMessage e user cid b st = (b, st)"
  by (simp add: handleSendMessage_def)

lemma handleSendMessage_run:
  "trim (newMessage st) \<noteq> [] \<Longrightarrow> otherUser st = Some other \<Longrightarrow> c \<noteq> [] \<Longrightarrow>
   handleSendMessage e (Some uid) (Some c) b st =
     (case sendMessage_try e uid (other_id other) c b st of
        (b1, Inl err) \<Rightarrow>
          (b1, st\<lparr>toasts := toasts st @
                    [\<lparr>title = ''Error'', description = ''Failed to send message''\<rparr>]\<rparr>)
      | (b1, Inr st1) \<Rightarrow> (b1, st1))"
  by (simp add: handleSendMessage_def)

text \<open>
  C5. A send whose trimmed text is not empty and whose two writes the backend accepts
  issues exactly two requests, the append of the message and then the merge write of the
  summary. The message collection gains one record, with \<open>read = False\<close> and the
  backend's clock as creation time. The conversation's record gets the new
  \<open>lastMessage\<close> and \<open>lastMessageTime\<close> and keeps its \<open>participants\<close>; it is created,
  without participants, when it was absent. No other conversation and no user record
  changes.
\<close>

theorem send_appends_then_upserts_summary:
  assumes "trim (newMessage st) \<noteq> []" and "otherUser st = Some other" and "c \<noteq> []"
    and "\<not> rejects e (message_append c uid (other_id other) (trim (newMessage st)))"
    and "autoId e \<notin> fst ` set (messages_coll b)"
    and "\<not> rejects e (summary_upsert c (trim (newMessage st)))"
  shows "\<exists>b'. handleSendMessage e (Some uid) (Some c) b st = (b', st\<lparr>newMessage := []\<rparr>) \<and>
     requests b' = requests b @
       [message_append c uid (other_id other) (trim (newMessage st)),
        summary_upsert c (trim (newMessage st))] \<and>
     messages_coll b' = messages_coll b @
       [(autoId e, \<lparr>conversationId = c, senderId = uid, receiverId = other_id other,
                    msg_text = trim (newMessage st), createdAt = clock b, read = False\<rparr>)] \<and>
     conversations_coll b' = (conversations_coll b)(c \<mapsto>
       \<lparr>d_participants = (case conversations_coll b c of None \<Rightarrow> None | Some d \<Rightarrow> d_participants d),
        d_lastMessage = Some (trim (newMessage st)),
        d_lastMessageTime = Some (Suc (clock b))\<rparr>) \<and>
     users_coll b' = users_coll b"
proof -
  from sendMessage_try_add_ok [OF assms(4,5)] assms(6)
  obtain b' where run: "sendMessage_try e uid (other_id other) c b st = (b', Inr (st\<lparr>newMessage := []\<rparr>))"
    and eff: "requests b' = requests b @
       [message_append c uid (other_id other) (trim (newMessage st)),
        summary_upsert c (trim (newMessage st))]"
      "messages_coll b' = messages_coll b @
       [(autoId e, \<lparr>conversationId = c, senderId = uid, receiverId = other_id other,
                    msg_text = trim (newMessage st), createdAt = clock b, read = False\<rparr>)]"
      "conversations_coll b' = (conversations_coll b)(c \<mapsto>
       \<lparr>d_participants = (case conversations_coll b c of None \<Rightarrow> None | Some d \<Rightarrow> d_participants d),
        d_lastMessage = Some (trim (newMessage st)),
        d_lastMessageTime = Some (Suc (clock b))\<rparr>)"
      "users_coll b' = users_coll b"
    by auto
  from handleSendMessage_run [OF assms(1-3), of e uid b] run
  have "handleSendMessage e (Some uid) (Some c) b st = (b', st\<lparr>newMessage := []\<rparr>)" by simp
  with eff show ?thesis by blast
qed

theorem send_appends_then_upserts_summary_witness:
  "trim (newMessage ex_draft) = ''yo'' \<and>
   conversations_coll (fst (handleSendMessage ex_env (Some ''u1'') (Some ''c1'') ex_backend ex_draft)) ''c1''
     = Some \<lparr>d_participants = Some [''u1'', ''u2''], d_lastMessage = Some ''yo'',
             d_lastMessageTime = Some 6\<rparr> \<and>
   drop 4 (messages_coll (fst (handleSendMessage ex_env (Some ''u1'') (Some ''c1'') ex_backend ex_draft)))
     = [(''m5'', msg ''c1'' ''u1'' ''u2'' ''yo'' 5 False)]"
proof -
  have t: "trim (newMessage ex_draft) = ''yo''"
    by (simp add: ex_draft_def ex_chat_def trim_def is_space_def)
  have o: "otherUser ex_draft = Some \<lparr>other_id = ''u2'', username = ''Bob'', avatarUrl = []\<rparr>"
    by (simp add: ex_draft_def ex_chat_def)
  have "''c1'' \<noteq> []"
    "\<not> rejects ex_env (message_append ''c1'' ''u1'' ''u2'' ''yo'')"
    "autoId ex_env \<notin> fst ` set (messages_coll ex_backend)"
    "\<not> rejects ex_env (summary_upsert ''c1'' ''yo'')"
    by (simp_all add: ex_env_def ex_backend_def ex_c1_def ex_c2_def ex_thread_def msg_def)
  with send_appends_then_upserts_summary [of ex_draft _ "''c1''" ex_env "''u1''" ex_backend, OF _ o] t
  obtain b' where
    "handleSendMessage ex_env (Some ''u1'') (Some ''c1'') ex_backend ex_draft = (b', ex_draft\<lparr>newMessage := []\<rparr>)"
    "messages_coll b' = messages_coll ex_backend @
       [(''m5'', \<lparr>conversationId = ''c1'', senderId = ''u1'', receiverId = ''u2'',
                    msg_text = ''yo'', createdAt = clock ex_backend, read = False\<rparr>)]"
    "conversations_coll b' = (conversations_coll ex_backend)(''c1'' \<mapsto>
       \<lparr>d_participants = (case conversations_coll ex_backend ''c1'' of None \<Rightarrow> None | Some d \<Rightarrow> d_participants d),
        d_lastMessage = Some ''yo'',
        d_lastMessageTime = Some (Suc (clock ex_backend))\<rparr>)"
    by (auto simp: ex_env_def)
  then show ?thesis using t by (simp add: ex_env_def ex_backend_def ex_c1_def ex_c2_def ex_thread_def msg_def)
qed

text \<open>
  C6. A send whose text is empty after trimming returns at the guard: the backend, with
  its three collections and the list of requests it has received, and the state of the
  component are what they were.
\<close>

theorem empty_send_writes_nothing:
  assumes "trim (newMessage st) = []"
  shows "handleSendMessage e user cid b st = (b, st)"
  using assms by (simp add: handleSendMessage_def)

theorem empty_send_writes_nothing_witness:
  "trim (newMessage (ex_draft\<lparr>newMessage := ''   ''\<rparr>)) = [] \<and>
   handleSendMessage ex_env (Some ''u1'') (Some ''c1'') ex_backend (ex_draft\<lparr>newMessage := ''   ''\<rparr>)
     = (ex_backend, ex_draft\<lparr>newMessage := ''   ''\<rparr>)"
proof -
  have t: "trim (newMessage (ex_draft\<lparr>newMessage := ''   ''\<rparr>)) = []"
    by (simp add: trim_def is_space_def)
  from empty_send_writes_nothing [OF t] t show ?thesis by simp
qed


section \<open>Marking messages read\<close>

lemma updateDoc_messages_cases:
  "updateDoc_messages e b i rd =
     (if rejects e (UpdateDoc_messages i rd) \<or> i \<notin> fst ` set (messages_coll b)
      then (received (UpdateDoc_messages i rd) b, Inl FirestoreError)
      else ((received (UpdateDoc_messages i rd) b)
              \<lparr>messages_coll := set_read i rd (messages_coll b), clock := Suc (clock b)\<rparr>, Inr ()))"
  by (simp add: updateDoc_messages_def Let_def)

lemma keeps_read_refl [simp]: "keeps_read ms ms"
  by (simp add: keeps_read_def list_all2_same)

lemma keeps_read_append [simp]: "keeps_read ms (ms @ extra)"
  by (simp add: keeps_read_def list_all2_same)

lemma keeps_read_set_read [simp]: "keeps_read ms (set_read i True ms)"
  by (simp add: keeps_read_def set_read_def list_all2_map2 list_all2_same)

lemma keeps_read_nth:
  "keeps_read xs ys \<longleftrightarrow>
     length xs \<le> length ys \<and>
     (\<forall>k < length xs. fst (ys ! k) = fst (xs ! k) \<and> (read (snd (xs ! k)) \<longrightarrow> read (snd (ys ! k))))"
  by (auto simp: keeps_read_def list_all2_conv_all_nth)

lemma keeps_read_trans: "keeps_read xs ys \<Longrightarrow> keeps_read ys zs \<Longrightarrow> keeps_read xs zs"
proof -
  assume a: "keeps_read xs ys" and b: "keeps_read ys zs"
  from a b have len: "length xs \<le> length ys" "length ys \<le> length zs"
    by (simp_all add: keeps_read_nth)
  have "fst (zs ! k) = fst (xs ! k) \<and> (read (snd (xs ! k)) \<longrightarrow> read (snd (zs ! k)))"
    if "k < length xs" for k
  proof -
    from that len have "k < length ys" by simp
    with b have "fst (zs ! k) = fst (ys ! k)" "read (snd (ys ! k)) \<longrightarrow> read (snd (zs ! k))"
      by (simp_all add: keeps_read_nth)
    moreover from a that have "fst (ys ! k) = fst (xs ! k)" "read (snd (xs ! k)) \<longrightarrow> read (snd (ys ! k))"
      by (simp_all add: keeps_read_nth)
    ultimately show ?thesis by simp
  qed
  with len show ?thesis by (simp add: keeps_read_nth)
qed

lemma keeps_read_same_length:
  "keeps_read xs ys \<Longrightarrow> length ys = length xs \<Longrightarrow> map fst ys = map fst xs"
  by (auto simp: keeps_read_def list_all2_conv_all_nth intro!: nth_equalityI)

lemma map_fst_set_read [simp]: "map fst (set_read i rd ms) = map fst ms"
  by (simp add: set_read_def)

lemma marked_read_set_read:
  assumes "i \<in> fst ` set ms"
  shows "marked_read i (set_read i True ms)"
proof -
  have "fst ` set (set_read i True ms) = fst ` set ms"
    by (metis map_fst_set_read set_map)
  moreover have "list_all (\<lambda>d. fst d = i \<longrightarrow> read (snd d)) (set_read i True ms)"
    by (induction ms) (simp_all add: set_read_def)
  ultimately show ?thesis using assms by (simp add: marked_read_def)
qed

lemma marked_read_kept:
  assumes "marked_read i xs" and "keeps_read xs ys" and "length ys = length xs"
  shows "marked_read i ys"
proof -
  from keeps_read_same_length [OF assms(2,3)] have "set (map fst ys) = set (map fst xs)"
    by simp
  then have ids: "fst ` set ys = fst ` set xs" by simp
  have "list_all (\<lambda>d. fst d = i \<longrightarrow> read (snd d)) ys"
    unfolding list_all_length
  proof (intro allI impI)
    fix k assume k: "k < length ys" and "fst (ys ! k) = i"
    with assms(2,3) have "fst (xs ! k) = i" "read (snd (xs ! k)) \<longrightarrow> read (snd (ys ! k))"
      by (simp_all add: keeps_read_nth)
    moreover from assms(1) k assms(3) have "fst (xs ! k) = i \<longrightarrow> read (snd (xs ! k))"
      by (simp add: marked_read_def list_all_length)
    ultimately show "read (snd (ys ! k))" by simp
  qed
  with ids assms(1) show ?thesis by (simp add: marked_read_def)
qed

lemma markRead_store:
  "markRead e b ms = (b', r) \<Longrightarrow>
     keeps_read (messages_coll b) (messages_coll b') \<and>
     length (messages_coll b') = length (messages_coll b) \<and>
     users_coll b' = users_coll b \<and> conversations_coll b' = conversations_coll b"
proof (induction ms arbitrary: b)
  case Nil
  then show ?case by simp
next
  case (Cons m ms)
  show ?case
  proof (cases "rejects e (UpdateDoc_messages (fst m) True) \<or> fst m \<notin> fst ` set (messages_coll b)")
    case True
    with Cons.prems show ?thesis by (auto simp: updateDoc_messages_cases)
  next
    case False
    let ?b1 = "(received (UpdateDoc_messages (fst m) True) b)
              \<lparr>messages_coll := set_read (fst m) True (messages_coll b), clock := Suc (clock b)\<rparr>"
    from False Cons.prems have "markRead e ?b1 ms = (b', r)"
      by (simp add: updateDoc_messages_cases)
    from Cons.IH [OF this] have
      "keeps_read (set_read (fst m) True (messages_coll b)) (messages_coll b')"
      "length (messages_coll b') = length (messages_coll b)"
      "users_coll b' = users_coll b" "conversations_coll b' = conversations_coll b"
      by (simp_all add: set_read_def)
    with keeps_read_trans [OF keeps_read_set_read] show ?thesis by blast
  qed
qed

lemma markRead_requests:
  "markRead e b ms = (b', r) \<Longrightarrow>
     \<exists>n \<le> length ms. requests b' = requests b @ map (\<lambda>m. UpdateDoc_messages (fst m) True) (take n ms) \<and>
        (r = None \<longrightarrow> n = length ms)"
proof (induction ms arbitrary: b)
  case Nil
  then show ?case by simp
next
  case (Cons m ms)
  show ?case
  proof (cases "rejects e (UpdateDoc_messages (fst m) True) \<or> fst m \<notin> fst ` set (messages_coll b)")
    case True
    with Cons.prems have "requests b' = requests b @ map (\<lambda>m. UpdateDoc_messages (fst m) True) (take 1 (m # ms))"
      "r \<noteq> None"
      by (auto simp: updateDoc_messages_cases)
    then show ?thesis by (intro exI [of _ 1]) auto
  next
    case False
    let ?b1 = "(received (UpdateDoc_messages (fst m) True) b)
              \<lparr>messages_coll := set_read (fst m) True (messages_coll b), clock := Suc (clock b)\<rparr>"
    from False Cons.prems have "markRead e ?b1 ms = (b', r)"
      by (simp add: updateDoc_messages_cases)
    from Cons.IH [OF this] obtain n where n: "n \<le> length ms"
      "requests b' = requests ?b1 @ map (\<lambda>m. UpdateDoc_messages (fst m) True) (take n ms)"
      "r = None \<longrightarrow> n = length ms"
      by blast
    then show ?thesis by (intro exI [of _ "Suc n"]) simp
  qed
qed

lemma markRead_all_marked:
  "markRead e b ms = (b', None) \<Longrightarrow> m \<in> set ms \<Longrightarrow> marked_read (fst m) (messages_coll b')"
proof (induction ms arbitrary: b)
  case Nil
  then show ?case by simp
next
  case (Cons x ms)
  from Cons.prems(1) have ok: "\<not> rejects e (UpdateDoc_messages (fst x) True)"
    "fst x \<in> fst ` set (messages_coll b)"
    by (auto simp: updateDoc_messages_cases split: if_splits)
  let ?b1 = "(received (UpdateDoc_messages (fst x) True) b)
              \<lparr>messages_coll := set_read (fst x) True (messages_coll b), clock := Suc (clock b)\<rparr>"
  from ok Cons.prems(1) have rest: "markRead e ?b1 ms = (b', None)"
    by (simp add: updateDoc_messages_cases)
  show ?case
  proof (cases "m \<in> set ms")
    case True
    with Cons.IH [OF rest] show ?thesis by simp
  next
    case False
    with Cons.prems(2) have "m = x" by simp
    from marked_read_set_read [OF ok(2)] have "marked_read (fst x) (messages_coll ?b1)" by simp
    moreover from markRead_store [OF rest] have "keeps_read (messages_coll ?b1) (messages_coll b')"
      "length (messages_coll b') = length (messages_coll ?b1)" by (simp_all add: set_read_def)
    ultimately show ?thesis using \<open>m = x\<close> by (auto intro: marked_read_kept)
  qed
qed


lemma run_all_resolveEntry_messages_coll:
  "run_all (resolveEntry e uid) b snapshot = (b', rs) \<Longrightarrow> messages_coll b' = messages_coll b"
proof (induction snapshot arbitrary: b b' rs)
  case Nil
  then show ?case by simp
next
  case (Cons cd snapshot)
  obtain b1 r where r: "resolveEntry e uid b cd = (b1, r)"
    by (cases "resolveEntry e uid b cd")
  obtain b2 rs' where rs: "run_all (resolveEntry e uid) b1 snapshot = (b2, rs')"
    by (cases "run_all (resolveEntry e uid) b1 snapshot")
  from Cons.prems r rs have "b' = b2" by simp
  with Cons.IH [OF rs] resolveEntry_messages_coll [OF r] show ?case by simp
qed

lemma onSnapshot_conversations_messages_coll:
  "messages_coll (fst (onSnapshot_conversations e uid b st snapshot)) = messages_coll b"
proof -
  obtain b1 rs where run: "run_all (resolveEntry e uid) b snapshot = (b1, rs)"
    by (cases "run_all (resolveEntry e uid) b snapshot")
  then have "fst (onSnapshot_conversations e uid b st snapshot) = b1"
    by (simp add: onSnapshot_conversations_def split: sum.splits)
  with run_all_resolveEntry_messages_coll [OF run] show ?thesis by simp
qed

lemma loadConversation_messages_coll:
  "messages_coll (fst (loadConversation e uid c b st)) = messages_coll b"
  by (simp add: loadConversation_def loadConversation_try_def getDoc_conversations_def
      getDoc_users_def Let_def split: option.splits sum.splits prod.splits)

lemma handleSendMessage_keeps_read:
  "keeps_read (messages_coll b) (messages_coll (fst (handleSendMessage e user cid b st)))"
proof (cases "trim (newMessage st) = [] \<or> user = None \<or> otherUser st = None \<or> cid = None \<or> cid = Some []")
  case True
  then show ?thesis by (simp add: handleSendMessage_guard)
next
  case False
  then obtain uid other c where g: "user = Some uid" "otherUser st = Some other" "cid = Some c"
    "c \<noteq> []" "trim (newMessage st) \<noteq> []" by auto
  show ?thesis
  proof (cases "rejects e (message_append c uid (other_id other) (trim (newMessage st))) \<or>
           autoId e \<in> fst ` set (messages_coll b)")
    case True
    from sendMessage_try_add_fails [OF this] g show ?thesis
      by (simp add: handleSendMessage_run)
  next
    case False
    with sendMessage_try_add_ok [of e c uid "other_id other" st b]
    obtain b' r where "sendMessage_try e uid (other_id other) c b st = (b', r)"
      "\<exists>new. messages_coll b' = messages_coll b @ [new]" by auto
    with g show ?thesis by (auto simp: handleSendMessage_run split: sum.splits)
  qed
qed

lemma onSnapshot_messages_run:
  "markRead e b (unreadMessages uid snap) = (b', r) \<Longrightarrow>
   onSnapshot_messages e uid b st snap = (b', st\<lparr>messages := snap\<rparr>, r)"
  by (simp add: onSnapshot_messages_def)

lemma write_fails_same_ids:
  "map fst (messages_coll b1) = map fst (messages_coll b) \<Longrightarrow> write_fails e b1 = write_fails e b"
proof -
  assume "map fst (messages_coll b1) = map fst (messages_coll b)"
  then have "set (map fst (messages_coll b1)) = set (map fst (messages_coll b))" by simp
  then have "fst ` set (messages_coll b1) = fst ` set (messages_coll b)" by simp
  then show ?thesis by (simp add: write_fails_def fun_eq_iff)
qed

text \<open>
  The loop, exactly: it goes through the messages whose write succeeds up to the first
  one whose write fails, sends the write for that one too, and stops.
\<close>

lemma markRead_exact:
  "markRead e b ms = (b', r) \<Longrightarrow>
     requests b' = requests b @ map (\<lambda>m. UpdateDoc_messages (fst m) True)
        (takeWhile (\<lambda>m. \<not> write_fails e b m) ms @ take 1 (dropWhile (\<lambda>m. \<not> write_fails e b m) ms)) \<and>
     messages_coll b' = foldl (\<lambda>store m. set_read (fst m) True store) (messages_coll b)
        (takeWhile (\<lambda>m. \<not> write_fails e b m) ms) \<and>
     r = (if \<exists>m \<in> set ms. write_fails e b m then Some FirestoreError else None)"
proof (induction ms arbitrary: b)
  case Nil
  then show ?case by simp
next
  case (Cons m ms)
  show ?case
  proof (cases "write_fails e b m")
    case True
    with Cons.prems show ?thesis
      by (auto simp: updateDoc_messages_cases write_fails_def)
  next
    case False
    let ?b1 = "(received (UpdateDoc_messages (fst m) True) b)
              \<lparr>messages_coll := set_read (fst m) True (messages_coll b), clock := Suc (clock b)\<rparr>"
    from False Cons.prems have run: "markRead e ?b1 ms = (b', r)"
      by (simp add: updateDoc_messages_cases write_fails_def)
    have same: "write_fails e ?b1 = write_fails e b"
      by (rule write_fails_same_ids) simp
    from Cons.IH [OF run] False show ?thesis
      by (simp add: same)
  qed
qed

text \<open>
  C2, as the code has it. The listener sends the read-marking writes one by one, in the
  order of the snapshot, for the messages that the snapshot shows addressed to the actor
  and unread. When none of these writes fails, every such message ends up read in the
  collection. The first write that fails ends the pass: the requests are the writes for
  the messages before it and the failed one, the records of the messages before it are
  marked, and nothing else in the collection changes. Each request is a write of
  \<open>read = True\<close> for a message of the snapshot whose receiver is the actor. No operation
  of the two screens removes a record or turns a read flag from true to false.
\<close>

theorem read_marking_only_raises:
  "((\<forall>m \<in> set (unreadMessages uid snap). \<not> write_fails e b m) \<longrightarrow>
      snd (snd (onSnapshot_messages e uid b st snap)) = None \<and>
      (\<forall>m \<in> set snap. receiverId (snd m) = uid \<and> \<not> read (snd m) \<longrightarrow>
         marked_read (fst m) (messages_coll (fst (onSnapshot_messages e uid b st snap))))) \<and>
   requests (fst (onSnapshot_messages e uid b st snap)) =
      requests b @ map (\<lambda>m. UpdateDoc_messages (fst m) True)
        (takeWhile (\<lambda>m. \<not> write_fails e b m) (unreadMessages uid snap) @
         take 1 (dropWhile (\<lambda>m. \<not> write_fails e b m) (unreadMessages uid snap))) \<and>
   messages_coll (fst (onSnapshot_messages e uid b st snap)) =
      foldl (\<lambda>store m. set_read (fst m) True store) (messages_coll b)
        (takeWhile (\<lambda>m. \<not> write_fails e b m) (unreadMessages uid snap)) \<and>
   (\<forall>rq \<in> set (drop (length (requests b)) (requests (fst (onSnapshot_messages e uid b st snap)))).
      \<exists>m \<in> set snap. rq = UpdateDoc_messages (fst m) True \<and> receiverId (snd m) = uid \<and>
                      \<not> read (snd m)) \<and>
   keeps_read (messages_coll b) (messages_coll (fst (onSnapshot_messages e uid b st snap))) \<and>
   keeps_read (messages_coll b) (messages_coll (fst (handleSendMessage e user cid b st))) \<and>
   keeps_read (messages_coll b) (messages_coll (fst (loadConversation e uid c b st))) \<and>
   keeps_read (messages_coll b) (messages_coll (fst (onSnapshot_conversations e uid b ist isnap)))"
proof -
  let ?U = "unreadMessages uid snap"
  let ?sent = "takeWhile (\<lambda>m. \<not> write_fails e b m) ?U @
               take 1 (dropWhile (\<lambda>m. \<not> write_fails e b m) ?U)"
  obtain b' r where run: "markRead e b ?U = (b', r)"
    by (cases "markRead e b ?U")
  note res = onSnapshot_messages_run [OF run, of st]
  from markRead_exact [OF run]
  have reqs: "requests b' = requests b @ map (\<lambda>m. UpdateDoc_messages (fst m) True) ?sent"
    and store: "messages_coll b' = foldl (\<lambda>store m. set_read (fst m) True store) (messages_coll b)
        (takeWhile (\<lambda>m. \<not> write_fails e b m) ?U)"
    and out: "r = (if \<exists>m \<in> set ?U. write_fails e b m then Some FirestoreError else None)"
    by simp_all
  have all_ok: "r = None \<and> (\<forall>m \<in> set snap. receiverId (snd m) = uid \<and> \<not> read (snd m) \<longrightarrow>
         marked_read (fst m) (messages_coll b'))"
    if ok: "\<forall>m \<in> set ?U. \<not> write_fails e b m"
  proof -
    from ok out have none: "r = None" by simp
    have "marked_read (fst m) (messages_coll b')"
      if "m \<in> set snap" "receiverId (snd m) = uid" "\<not> read (snd m)" for m
    proof -
      from that have "m \<in> set ?U" by (simp add: unreadMessages_def)
      with run none show ?thesis by (auto intro: markRead_all_marked)
    qed
    with none show ?thesis by blast
  qed
  have "set ?sent \<subseteq> set ?U"
    by (auto dest: set_takeWhileD in_set_takeD set_dropWhileD)
  then have "\<forall>m \<in> set ?sent. m \<in> set snap \<and> receiverId (snd m) = uid \<and> \<not> read (snd m)"
    by (auto simp: unreadMessages_def)
  with reqs have only: "\<forall>rq \<in> set (drop (length (requests b)) (requests b')).
      \<exists>m \<in> set snap. rq = UpdateDoc_messages (fst m) True \<and> receiverId (snd m) = uid \<and>
                      \<not> read (snd m)"
    by auto
  from markRead_store [OF run] have kept: "keeps_read (messages_coll b) (messages_coll b')"
    by simp
  have load: "keeps_read (messages_coll b) (messages_coll (fst (loadConversation e uid c b st)))"
    by (simp add: loadConversation_messages_coll)
  have inbox: "keeps_read (messages_coll b)
      (messages_coll (fst (onSnapshot_conversations e uid b ist isnap)))"
    by (simp add: onSnapshot_conversations_messages_coll)
  from all_ok reqs store only kept load inbox handleSendMessage_keeps_read [of b e user cid st]
  show ?thesis by (simp add: res)
qed

theorem read_marking_only_raises_witness:
  "map (write_fails ex_env ex_backend) (unreadMessages ''u1'' ex_thread) = [False, False] \<and>
   (''m3'', msg ''c1'' ''u2'' ''u1'' ''see you'' 3 False) \<in> set ex_thread \<and>
   marked_read ''m3'' (messages_coll (fst (onSnapshot_messages ex_env ''u1'' ex_backend ex_chat ex_thread))) \<and>
   requests (fst (onSnapshot_messages ex_env ''u1'' ex_backend ex_chat ex_thread))
     = [UpdateDoc_messages ''m1'' True, UpdateDoc_messages ''m3'' True]"
proof -
  have w: "map (write_fails ex_env ex_backend) (unreadMessages ''u1'' ex_thread) = [False, False]"
    by (simp add: ex_env_def ex_backend_def ex_thread_def msg_def unreadMessages_def
        write_fails_def)
  then have ok: "\<forall>m \<in> set (unreadMessages ''u1'' ex_thread). \<not> write_fails ex_env ex_backend m"
    by (metis (no_types, lifting) imageI insert_iff list.set(1) list.set(2) list.set_map empty_iff)
  have m: "(''m3'', msg ''c1'' ''u2'' ''u1'' ''see you'' 3 False) \<in> set ex_thread"
    by (simp add: ex_thread_def)
  have "receiverId (msg ''c1'' ''u2'' ''u1'' ''see you'' 3 False) = ''u1''"
    "\<not> read (msg ''c1'' ''u2'' ''u1'' ''see you'' 3 False)"
    by (simp_all add: msg_def)
  with read_marking_only_raises [of "''u1''" ex_thread ex_env ex_backend ex_chat] ok m
  have "marked_read ''m3'' (messages_coll (fst (onSnapshot_messages ex_env ''u1'' ex_backend ex_chat ex_thread)))"
    by fastforce
  moreover have "requests (fst (onSnapshot_messages ex_env ''u1'' ex_backend ex_chat ex_thread))
     = [UpdateDoc_messages ''m1'' True, UpdateDoc_messages ''m3'' True]"
    by (simp add: ex_env_def ex_backend_def ex_c1_def ex_c2_def ex_thread_def msg_def ex_chat_def
        onSnapshot_messages_def unreadMessages_def updateDoc_messages_def set_read_def received_def)
  ultimately show ?thesis using w m by simp
qed

text \<open>
  With the write for \<open>m1\<close> rejected, the pass over \<open>ex_thread\<close> for \<open>u1\<close> stops
  after its first request: \<open>m3\<close>, addressed to \<open>u1\<close> and unread in the snapshot, is
  not written and stays unread.
\<close>

theorem rejected_write_leaves_later_message_unread:
  "(''m3'', msg ''c1'' ''u2'' ''u1'' ''see you'' 3 False) \<in> set ex_thread \<and>
   receiverId (msg ''c1'' ''u2'' ''u1'' ''see you'' 3 False) = ''u1'' \<and>
   \<not> read (msg ''c1'' ''u2'' ''u1'' ''see you'' 3 False) \<and>
   map_of (messages_coll (fst (onSnapshot_messages env_update_down ''u1'' ex_backend ex_chat ex_thread)))
     ''m3'' = Some (msg ''c1'' ''u2'' ''u1'' ''see you'' 3 False) \<and>
   requests (fst (onSnapshot_messages env_update_down ''u1'' ex_backend ex_chat ex_thread))
     = [UpdateDoc_messages ''m1'' True]"
  by (simp add: env_update_down_def ex_backend_def ex_c1_def ex_c2_def ex_thread_def msg_def
      ex_chat_def onSnapshot_messages_def unreadMessages_def updateDoc_messages_def
        set_read_def received_def)

text \<open>
  C7. A snapshot in which every message addressed to the actor is read makes the
  listener store the list and nothing else: it sends no request, and the backend is
  what it was.
\<close>

theorem fully_read_thread_sends_nothing:
  assumes "\<forall>m \<in> set snap. receiverId (snd m) = uid \<longrightarrow> read (snd m)"
  shows "onSnapshot_messages e uid b st snap = (b, st\<lparr>messages := snap\<rparr>, None)"
proof -
  from assms have "unreadMessages uid snap = []"
    by (auto simp: unreadMessages_def filter_empty_conv)
  then show ?thesis by (simp add: onSnapshot_messages_def)
qed

theorem fully_read_thread_sends_nothing_witness:
  "map (\<lambda>m. (receiverId (snd m), read (snd m))) ex_thread_read
     = [(''u1'', True), (''u2'', False), (''u1'', True)] \<and>
   onSnapshot_messages ex_env ''u1'' ex_backend ex_chat ex_thread_read
     = (ex_backend, ex_chat\<lparr>messages := ex_thread_read\<rparr>, None)"
proof -
  have v: "map (\<lambda>m. (receiverId (snd m), read (snd m))) ex_thread_read
     = [(''u1'', True), (''u2'', False), (''u1'', True)]"
    by (simp add: ex_thread_read_def msg_def)
  have h: "\<forall>m \<in> set ex_thread_read. receiverId (snd m) = ''u1'' \<longrightarrow> read (snd m)"
    by (simp add: ex_thread_read_def msg_def)
  from fully_read_thread_sends_nothing [OF h] v show ?thesis by simp
qed

section \<open>The draft after a send\<close>

text \<open>
  C9. The draft changes only on the path where the append and then the summary write
  were both sent and accepted, and there it becomes empty. When the append or the
  summary write fails, the draft is what it was; if the guard had let the send through,
  the failure notice is shown.
\<close>

theorem draft_cleared_only_after_both_writes:
  assumes "handleSendMessage e user cid b st = (b', st')"
  shows "(newMessage st' \<noteq> newMessage st \<longrightarrow>
            newMessage st' = [] \<and>
            (\<exists>uid other c. user = Some uid \<and> otherUser st = Some other \<and> cid = Some c \<and>
               requests b' = requests b @
                 [message_append c uid (other_id other) (trim (newMessage st)),
                  summary_upsert c (trim (newMessage st))] \<and>
               \<not> rejects e (message_append c uid (other_id other) (trim (newMessage st))) \<and>
               \<not> rejects e (summary_upsert c (trim (newMessage st))) \<and>
               length (messages_coll b') = Suc (length (messages_coll b)) \<and>
               conversations_coll b' c \<noteq> None)) \<and>
         (\<forall>uid other c. user = Some uid \<and> otherUser st = Some other \<and> cid = Some c \<and>
               (rejects e (message_append c uid (other_id other) (trim (newMessage st))) \<or>
                autoId e \<in> fst ` set (messages_coll b) \<or>
                rejects e (summary_upsert c (trim (newMessage st)))) \<longrightarrow>
            newMessage st' = newMessage st \<and>
            (trim (newMessage st) \<noteq> [] \<and> c \<noteq> [] \<longrightarrow>
               toasts st' = toasts st @
                 [\<lparr>title = ''Error'', description = ''Failed to send message''\<rparr>]))"
proof (cases "trim (newMessage st) = [] \<or> user = None \<or> otherUser st = None \<or> cid = None \<or> cid = Some []")
  case True
  with assms have "st' = st" by (simp add: handleSendMessage_guard)
  with True show ?thesis by auto
next
  case False
  then obtain uid other c where g: "user = Some uid" "otherUser st = Some other" "cid = Some c"
    "c \<noteq> []" "trim (newMessage st) \<noteq> []" by auto
  note run = handleSendMessage_run [OF g(5) g(2) g(4), of e uid b]
  show ?thesis
  proof (cases "rejects e (message_append c uid (other_id other) (trim (newMessage st))) \<or>
           autoId e \<in> fst ` set (messages_coll b)")
    case True
    from sendMessage_try_add_fails [OF this] assms g run
    have "st' = st\<lparr>toasts := toasts st @
                    [\<lparr>title = ''Error'', description = ''Failed to send message''\<rparr>]\<rparr>"
      by simp
    with g True show ?thesis by auto
  next
    case False
    with sendMessage_try_add_ok [of e c uid "other_id other" st b]
    obtain b1 r where t: "sendMessage_try e uid (other_id other) c b st = (b1, r)"
      and eff: "requests b1 = requests b @
         [message_append c uid (other_id other) (trim (newMessage st)),
          summary_upsert c (trim (newMessage st))]"
        "length (messages_coll b1) = Suc (length (messages_coll b))"
        "if rejects e (summary_upsert c (trim (newMessage st)))
         then r = Inl FirestoreError
         else r = Inr (st\<lparr>newMessage := []\<rparr>) \<and> conversations_coll b1 c \<noteq> None"
      by (auto split: if_splits)
    show ?thesis
    proof (cases "rejects e (summary_upsert c (trim (newMessage st)))")
      case True
      with eff(3) t assms g run
      have "st' = st\<lparr>toasts := toasts st @
                    [\<lparr>title = ''Error'', description = ''Failed to send message''\<rparr>]\<rparr>"
        by simp
      with g True show ?thesis by auto
    next
      case no: False
      with eff(3) t assms g run have "st' = st\<lparr>newMessage := []\<rparr>" "b' = b1" by simp_all
      with g False no eff show ?thesis by auto
    qed
  qed
qed

theorem draft_cleared_only_after_both_writes_witness:
  "rejects env_summary_down (summary_upsert ''c1'' (trim (newMessage ex_draft))) \<and>
   newMessage (snd (handleSendMessage env_summary_down (Some ''u1'') (Some ''c1'') ex_backend ex_draft))
     = '' yo '' \<and>
   newMessage (snd (handleSendMessage ex_env (Some ''u1'') (Some ''c1'') ex_backend ex_draft)) = []"
proof -
  have rej: "rejects env_summary_down (summary_upsert ''c1'' (trim (newMessage ex_draft)))"
    by (simp add: env_summary_down_def)
  have o: "otherUser ex_draft = Some \<lparr>other_id = ''u2'', username = ''Bob'', avatarUrl = []\<rparr>"
    by (simp add: ex_draft_def ex_chat_def)
  have d: "newMessage ex_draft = '' yo ''" by (simp add: ex_draft_def ex_chat_def)
  from draft_cleared_only_after_both_writes
    [of env_summary_down "Some ''u1''" "Some ''c1''" ex_backend ex_draft, OF surjective_pairing] rej o
  have "newMessage (snd (handleSendMessage env_summary_down (Some ''u1'') (Some ''c1'') ex_backend ex_draft))
     = newMessage ex_draft"
    by blast
  moreover have "newMessage (snd (handleSendMessage ex_env (Some ''u1'') (Some ''c1'') ex_backend ex_draft)) = []"
    by (simp add: ex_env_def ex_backend_def ex_c1_def ex_c2_def ex_thread_def msg_def ex_draft_def ex_chat_def
        handleSendMessage_def sendMessage_try_def addDoc_messages_def
        setDoc_conversations_merge_def merge_conversation_def empty_conversation_def received_def
        trim_def is_space_def)
  ultimately show ?thesis using rej d by simp
qed

section \<open>The search filter of the inbox\<close>

lemma sublist_map_iff:
  "sublist (map f t) (map f s) \<longleftrightarrow> (\<exists>pre mid post. s = pre @ mid @ post \<and> map f mid = map f t)"
proof
  assume "sublist (map f t) (map f s)"
  then obtain ps ss where "map f s = ps @ map f t @ ss" by (auto simp: sublist_def)
  then have "\<exists>us vs. s = us @ vs \<and> ps = map f us \<and> map f t @ ss = map f vs"
    by (simp only: map_eq_append_conv)
  then obtain pre rest where 1: "s = pre @ rest" and 2: "map f t @ ss = map f rest" by blast
  from 2 have "\<exists>us vs. rest = us @ vs \<and> map f t = map f us \<and> ss = map f vs"
    by (simp only: append_eq_map_conv)
  then obtain mid post where "rest = mid @ post" "map f mid = map f t" by metis
  with 1 show "\<exists>pre mid post. s = pre @ mid @ post \<and> map f mid = map f t" by blast
next
  assume "\<exists>pre mid post. s = pre @ mid @ post \<and> map f mid = map f t"
  then obtain pre mid post where "s = pre @ mid @ post" "map f mid = map f t" by blast
  then have "map f s = map f pre @ map f t @ map f post" by simp
  then show "sublist (map f t) (map f s)" unfolding sublist_def by blast
qed

lemma map_eq_iff_list_all2:
  "map f xs = map f ys \<longleftrightarrow> list_all2 (\<lambda>x y. f x = f y) xs ys"
proof (induction xs arbitrary: ys)
  case Nil
  then show ?case by auto
next
  case (Cons x xs)
  then show ?case by (cases ys) auto
qed

text \<open>\<open>lower_char\<close> against the table of letters.\<close>

lemma capitals_enum: "map char_of [65..<(91::nat)] = map fst letters"
  by code_simp

lemma capital_in_table:
  assumes "65 \<le> (of_char c :: nat)" and "(of_char c :: nat) \<le> 90"
  shows "c \<in> fst ` set letters"
proof -
  from assms have "(of_char c :: nat) \<in> {65..<91}" by simp
  then have "(of_char c :: nat) \<in> set [65..<91]" by (simp only: set_upt)
  then have "char_of (of_char c :: nat) \<in> set (map char_of [65..<(91::nat)])"
    by (simp only: set_map) (rule imageI)
  then show ?thesis by (simp only: capitals_enum char_of_char set_map)
qed

lemma lower_char_other: "c \<notin> fst ` set letters \<Longrightarrow> lower_char c = c"
  using capital_in_table [of c] by (auto simp: lower_char_def Let_def)

lemma table_lower: "list_all (\<lambda>p. lower_char (fst p) = snd p \<and> lower_char (snd p) = snd p) letters"
  by code_simp

lemma table_small_not_capital: "list_all (\<lambda>p. snd p \<notin> fst ` set letters) letters"
  by code_simp

lemma table_functional:
  "list_all (\<lambda>p. list_all (\<lambda>q. (snd p = snd q \<longrightarrow> fst p = fst q)) letters) letters"
  by code_simp

lemma lower_char_capital: "(a, l) \<in> set letters \<Longrightarrow> lower_char a = l \<and> lower_char l = l"
  using table_lower by (auto simp: list_all_iff)

lemma capital_pair: "a \<in> fst ` set letters \<Longrightarrow> (a, lower_char a) \<in> set letters"
  using lower_char_capital by force

lemma lower_char_eq_iff: "lower_char a = lower_char b \<longleftrightarrow> same_letter a b"
proof
  assume eq: "lower_char a = lower_char b"
  show "same_letter a b"
  proof (cases "a \<in> fst ` set letters")
    case a: True
    show ?thesis
    proof (cases "b \<in> fst ` set letters")
      case True
      from capital_pair [OF a] capital_pair [OF True] eq table_functional
      have "a = b" by (fastforce simp: list_all_iff)
      then show ?thesis by (simp add: same_letter_def)
    next
      case False
      with eq have "lower_char a = b" by (simp add: lower_char_other)
      with capital_pair [OF a] show ?thesis by (simp add: same_letter_def)
    qed
  next
    case a: False
    show ?thesis
    proof (cases "b \<in> fst ` set letters")
      case True
      from a eq have "lower_char b = a" by (simp add: lower_char_other)
      with capital_pair [OF True] show ?thesis by (simp add: same_letter_def)
    next
      case False
      with a eq show ?thesis by (simp add: lower_char_other same_letter_def)
    qed
  qed
next
  assume "same_letter a b"
  then show "lower_char a = lower_char b"
    using lower_char_capital [of a b] lower_char_capital [of b a]
    by (auto simp: same_letter_def)
qed

lemma toLowerCase_eq_iff: "toLowerCase s = toLowerCase t \<longleftrightarrow> list_all2 same_letter s t"
  by (simp add: toLowerCase_def map_eq_iff_list_all2 lower_char_eq_iff)

text \<open>
  C8. The filtered list is computed from the resolved entries and the search string
  alone: the definition takes the state of the component and no backend, so it can
  neither read nor write one. An entry is kept exactly when some part of the other
  participant's display name is the search string up to the case of its letters:
  character by character the two are equal or are the capital and the small form of one
  letter. The kept entries are entries of the list, unaltered and in their order; typing
  a search string changes neither the list nor the loading flag.
\<close>

theorem filter_is_case_insensitive_substring:
  "(conv \<in> set (filteredConversations st) \<longleftrightarrow>
      conv \<in> set (conversations st) \<and>
      (\<exists>pre mid post. otherUserName conv = pre @ mid @ post \<and>
                       list_all2 same_letter mid (searchTerm st))) \<and>
   subseq (filteredConversations st) (conversations st) \<and>
   filteredConversations st =
     filteredConversations \<lparr>conversations = conversations st, loading = l,
                            searchTerm = searchTerm st\<rparr> \<and>
   conversations (setSearchTerm v st) = conversations st \<and>
   loading (setSearchTerm v st) = loading st \<and>
   searchTerm (setSearchTerm v st) = v"
proof -
  have "includes_str (toLowerCase (otherUserName conv)) (toLowerCase (searchTerm st)) \<longleftrightarrow>
      (\<exists>pre mid post. otherUserName conv = pre @ mid @ post \<and>
                       toLowerCase mid = toLowerCase (searchTerm st))"
    unfolding includes_str_sublist toLowerCase_def by (rule sublist_map_iff)
  then have "includes_str (toLowerCase (otherUserName conv)) (toLowerCase (searchTerm st)) \<longleftrightarrow>
      (\<exists>pre mid post. otherUserName conv = pre @ mid @ post \<and>
                       list_all2 same_letter mid (searchTerm st))"
    by (simp only: toLowerCase_eq_iff)
  then show ?thesis
    by (auto simp: filteredConversations_def setSearchTerm_def)
qed

theorem filter_is_case_insensitive_substring_witness:
  "map conv_id (filteredConversations (setSearchTerm ''bO'' ex_resolved)) = [''c1''] \<and>
   map conv_id (filteredConversations (setSearchTerm ''unKNown'' ex_resolved)) = [''c2''] \<and>
   map conv_id (filteredConversations (setSearchTerm ''N'' ex_resolved)) = [''c2''] \<and>
   filteredConversations (setSearchTerm ''zz'' ex_resolved) = [] \<and>
   conversations (setSearchTerm ''zz'' ex_resolved) = conversations ex_resolved"
proof -
  have "map conv_id (filteredConversations (setSearchTerm ''bO'' ex_resolved)) = [''c1'']"
    by code_simp
  moreover have "map conv_id (filteredConversations (setSearchTerm ''unKNown'' ex_resolved)) = [''c2'']"
    by code_simp
  moreover have "map conv_id (filteredConversations (setSearchTerm ''N'' ex_resolved)) = [''c2'']"
    by code_simp
  moreover have "filteredConversations (setSearchTerm ''zz'' ex_resolved) = []"
    by code_simp
  ultimately show ?thesis
    using filter_is_case_insensitive_substring [of _ ex_resolved _ "''zz''"] by simp
qed

section \<open>Resolving the other participant\<close>

lemma find_other:
  "(\<exists>p \<in> set ps. p \<noteq> uid) \<Longrightarrow>
     \<exists>other. find (\<lambda>i. i \<noteq> uid) ps = Some other \<and> other \<in> set ps \<and> other \<noteq> uid"
  by (induction ps) auto

lemma find_none: "(\<forall>p \<in> set ps. p = uid) \<Longrightarrow> find (\<lambda>i. i \<noteq> uid) ps = None"
  by (induction ps) auto

lemma resolveEntry_requests:
  "d_participants d = Some ps \<Longrightarrow> find (\<lambda>i. i \<noteq> uid) ps = Some other \<Longrightarrow>
     requests (fst (resolveEntry e uid b (cid, d))) =
       requests b @
         (case doc_path other of
            Inl err \<Rightarrow> []
          | Inr ref \<Rightarrow>
              if rejects e (GetDoc_users ref) then [GetDoc_users ref]
              else [GetDoc_users ref,
                    GetDocs_messages
                      [Where_conversationId cid, Where_receiverId uid, Where_read False]])"
  by (simp add: resolveEntry_def getDoc_users_def getDocs_messages_def Let_def
      split: sum.splits)

lemma resolveEntry_otherUserId:
  "d_participants d = Some ps \<Longrightarrow> find (\<lambda>i. i \<noteq> uid) ps = Some other \<Longrightarrow>
     snd (resolveEntry e uid b (cid, d)) = Inr c \<Longrightarrow> otherUserId c = other"
  by (auto simp: resolveEntry_def getDoc_users_def getDocs_messages_def Let_def
      split: sum.splits if_splits)

lemma loadConversation_requests:
  "conversations_coll b cid = Some d \<Longrightarrow> \<not> rejects e (GetDoc_conversations cid) \<Longrightarrow>
   d_participants d = Some ps \<Longrightarrow> find (\<lambda>i. i \<noteq> uid) ps = Some other \<Longrightarrow>
     requests (fst (loadConversation e uid cid b st)) =
       requests b @ GetDoc_conversations cid #
         (case doc_path other of Inl err \<Rightarrow> [] | Inr ref \<Rightarrow> [GetDoc_users ref])"
  by (simp add: loadConversation_def loadConversation_try_def getDoc_conversations_def
      getDoc_users_def Let_def split: option.splits sum.splits list.splits)

text \<open>
  C10. When the participants list holds an identifier other than the actor's,
  \<open>find\<close> returns the first such identifier. It is the identifier that the inbox
  callback and the thread's loader pass to \<^verbatim>\<open>doc(db, 'users', ...)\<close>: the profile request
  they send is the one for its path, which for a document identifier is the identifier
  itself; when it is no document path, \<^verbatim>\<open>doc\<close> throws and no profile request is sent.
  An entry that the callback resolves carries that identifier. When the list holds no
  other identifier, \<open>find\<close> returns nothing and the inbox callback throws before sending
  anything.
\<close>

theorem other_participant_found_and_fetched:
  "((\<exists>p \<in> set ps. p \<noteq> uid) \<longrightarrow>
      (\<exists>other. find (\<lambda>i. i \<noteq> uid) ps = Some other \<and> other \<in> set ps \<and> other \<noteq> uid \<and>
         (other \<noteq> [] \<and> CHR ''/'' \<notin> set other \<longrightarrow> doc_path other = Inr [other]) \<and>
         (d_participants d = Some ps \<longrightarrow>
            requests (fst (resolveEntry e uid b (cid, d))) =
              requests b @
                (case doc_path other of
                   Inl err \<Rightarrow> []
                 | Inr ref \<Rightarrow>
                     if rejects e (GetDoc_users ref) then [GetDoc_users ref]
                     else [GetDoc_users ref,
                           GetDocs_messages
                             [Where_conversationId cid, Where_receiverId uid, Where_read False]]) \<and>
            (\<forall>c. snd (resolveEntry e uid b (cid, d)) = Inr c \<longrightarrow> otherUserId c = other)) \<and>
         (conversations_coll b cid = Some d \<and> \<not> rejects e (GetDoc_conversations cid) \<and>
          d_participants d = Some ps \<longrightarrow>
            requests (fst (loadConversation e uid cid b st)) =
              requests b @ GetDoc_conversations cid #
                (case doc_path other of Inl err \<Rightarrow> [] | Inr ref \<Rightarrow> [GetDoc_users ref])))) \<and>
   ((\<forall>p \<in> set ps. p = uid) \<longrightarrow>
      find (\<lambda>i. i \<noteq> uid) ps = None \<and>
      (d_participants d = Some ps \<longrightarrow> resolveEntry e uid b (cid, d) = (b, Inl TypeError)))"
proof (intro conjI impI)
  assume "\<exists>p \<in> set ps. p \<noteq> uid"
  from find_other [OF this] obtain other where
    o: "find (\<lambda>i. i \<noteq> uid) ps = Some other" "other \<in> set ps" "other \<noteq> uid" by blast
  have p: "other \<noteq> [] \<and> CHR ''/'' \<notin> set other \<longrightarrow> doc_path other = Inr [other]"
    by (simp add: doc_path_id)
  show "\<exists>other. find (\<lambda>i. i \<noteq> uid) ps = Some other \<and> other \<in> set ps \<and> other \<noteq> uid \<and>
         (other \<noteq> [] \<and> CHR ''/'' \<notin> set other \<longrightarrow> doc_path other = Inr [other]) \<and>
         (d_participants d = Some ps \<longrightarrow>
            requests (fst (resolveEntry e uid b (cid, d))) =
              requests b @
                (case doc_path other of
                   Inl err \<Rightarrow> []
                 | Inr ref \<Rightarrow>
                     if rejects e (GetDoc_users ref) then [GetDoc_users ref]
                     else [GetDoc_users ref,
                           GetDocs_messages
                             [Where_conversationId cid, Where_receiverId uid, Where_read False]]) \<and>
            (\<forall>c. snd (resolveEntry e uid b (cid, d)) = Inr c \<longrightarrow> otherUserId c = other)) \<and>
         (conversations_coll b cid = Some d \<and> \<not> rejects e (GetDoc_conversations cid) \<and>
          d_participants d = Some ps \<longrightarrow>
            requests (fst (loadConversation e uid cid b st)) =
              requests b @ GetDoc_conversations cid #
                (case doc_path other of Inl err \<Rightarrow> [] | Inr ref \<Rightarrow> [GetDoc_users ref]))"
    using o p resolveEntry_requests [of d ps uid other e b cid]
      resolveEntry_otherUserId [of d ps uid other e b cid]
      loadConversation_requests [of b cid d e ps uid other st]
    by (intro exI [of _ other]) simp
next
  assume "\<forall>p \<in> set ps. p = uid"
  then show "find (\<lambda>i. i \<noteq> uid) ps = None" by (rule find_none)
next
  assume "\<forall>p \<in> set ps. p = uid" and "d_participants d = Some ps"
  with find_none [of ps uid] show "resolveEntry e uid b (cid, d) = (b, Inl TypeError)"
    by (simp add: resolveEntry_def)
qed

theorem other_participant_found_and_fetched_witness:
  "''u3'' \<in> set [''u3'', ''u1''] \<and> ''u3'' \<noteq> ''u1'' \<and>
   find (\<lambda>i. i \<noteq> ''u1'') [''u3'', ''u1''] = Some ''u3'' \<and>
   doc_path ''u3'' = Inr [''u3''] \<and>
   requests (fst (loadConversation ex_env ''u1'' ''c2'' ex_backend ex_chat))
     = [GetDoc_conversations ''c2'', GetDoc_users [''u3'']]"
proof -
  have h: "\<exists>p \<in> set [''u3'', ''u1'']. p \<noteq> ''u1''" by simp
  have c: "conversations_coll ex_backend ''c2'' = Some ex_c2"
    "\<not> rejects ex_env (GetDoc_conversations ''c2'')"
    "d_participants ex_c2 = Some [''u3'', ''u1'']" "requests ex_backend = []"
    by (simp_all add: ex_env_def ex_backend_def ex_c1_def ex_c2_def ex_thread_def msg_def)
  have f: "find (\<lambda>i. i \<noteq> ''u1'') [''u3'', ''u1''] = Some ''u3''" by simp
  from other_participant_found_and_fetched
    [of "[''u3'', ''u1'']" "''u1''" ex_c2 ex_env ex_backend "''c2''" ex_chat] h c f
  have "doc_path ''u3'' = Inr [''u3'']"
    "requests (fst (loadConversation ex_env ''u1'' ''c2'' ex_backend ex_chat))
     = [] @ GetDoc_conversations ''c2'' #
         (case doc_path ''u3'' of Inl err \<Rightarrow> [] | Inr ref \<Rightarrow> [GetDoc_users ref])"
    by auto
  with f show ?thesis by simp
qed

section \<open>Failures while the inbox is resolved\<close>

lemma resolveEntry_snd_cong:
  "users_coll b1 = users_coll b \<Longrightarrow> messages_coll b1 = messages_coll b \<Longrightarrow>
     snd (resolveEntry e uid b1 cd) = snd (resolveEntry e uid b cd)"
  by (simp add: resolveEntry_def getDoc_users_def getDocs_messages_def Let_def
      cong: list.case_cong split: option.splits sum.splits)

lemma resolveEntry_users_coll:
  "resolveEntry e uid b cd = (b', r) \<Longrightarrow> users_coll b' = users_coll b"
  by (auto simp: resolveEntry_def getDoc_users_def getDocs_messages_def Let_def
      split: option.splits sum.splits prod.splits if_splits)

lemma run_all_results:
  "run_all (resolveEntry e uid) b snapshot = (b', rs) \<Longrightarrow>
     rs = map (\<lambda>cd. snd (resolveEntry e uid b cd)) snapshot"
proof (induction snapshot arbitrary: b b' rs)
  case Nil
  then show ?case by simp
next
  case (Cons cd snapshot)
  obtain b1 r where r: "resolveEntry e uid b cd = (b1, r)"
    by (cases "resolveEntry e uid b cd")
  obtain b2 rs' where rs: "run_all (resolveEntry e uid) b1 snapshot = (b2, rs')"
    by (cases "run_all (resolveEntry e uid) b1 snapshot")
  from Cons.prems r rs have eq: "rs = r # rs'" by simp
  from resolveEntry_users_coll [OF r] resolveEntry_messages_coll [OF r]
  have "snd (resolveEntry e uid b1 x) = snd (resolveEntry e uid b x)" for x
    by (rule resolveEntry_snd_cong)
  with Cons.IH [OF rs] have "rs' = map (\<lambda>cd. snd (resolveEntry e uid b cd)) snapshot" by simp
  with eq r show ?case by simp
qed

lemma promise_all_rejects:
  "Inl err \<in> set rs \<Longrightarrow> \<exists>err'. promise_all rs = Inl err'"
  by (induction rs rule: promise_all.induct) (auto split: sum.splits)

lemma resolveEntry_absent_profile:
  assumes "d_participants d = Some ps" and "find (\<lambda>i. i \<noteq> uid) ps = Some other"
    and "other \<noteq> []" and "CHR ''/'' \<notin> set other"
    and "\<not> rejects e (GetDoc_users [other])"
    and "\<not> rejects e (GetDocs_messages [Where_conversationId cid, Where_receiverId uid, Where_read False])"
    and "users_coll b other = None"
  shows "\<exists>c. snd (resolveEntry e uid b (cid, d)) = Inr c \<and> conv_id c = cid \<and>
             otherUserId c = other \<and> otherUserName c = ''Unknown'' \<and> otherUserAvatar c = []"
  using assms
  by (simp add: resolveEntry_def getDoc_users_def getDocs_messages_def Let_def or_default_def
      doc_path_id)

text \<open>
  C3, as the code has it. The list is replaced all at once or not at all. When the
  enrichment of some conversation of the snapshot rejects, the list is not replaced: it
  keeps the entries it had, with no entry, degraded or not, for the conversations of
  this snapshot. When no enrichment rejects, the list becomes the entries of the
  snapshot's conversations, in order. A profile lookup that succeeds and finds no record
  does not reject: its entry has the name \<open>Unknown\<close> and no avatar.
\<close>

theorem inbox_replaced_all_or_nothing:
  "((\<exists>cd \<in> set snapshot. \<exists>err. snd (resolveEntry e uid b cd) = Inl err) \<longrightarrow>
      conversations (fst (snd (onSnapshot_conversations e uid b st snapshot))) = conversations st) \<and>
   ((\<forall>cd \<in> set snapshot. \<exists>c. snd (resolveEntry e uid b cd) = Inr c) \<longrightarrow>
      map Inr (conversations (fst (snd (onSnapshot_conversations e uid b st snapshot))))
        = map (\<lambda>cd. snd (resolveEntry e uid b cd)) snapshot \<and>
      loading (fst (snd (onSnapshot_conversations e uid b st snapshot))) = False) \<and>
   (d_participants d = Some ps \<and> find (\<lambda>i. i \<noteq> uid) ps = Some other \<and>
    other \<noteq> [] \<and> CHR ''/'' \<notin> set other \<and>
    \<not> rejects e (GetDoc_users [other]) \<and>
    \<not> rejects e (GetDocs_messages [Where_conversationId cid, Where_receiverId uid, Where_read False]) \<and>
    users_coll b other = None \<longrightarrow>
      (\<exists>c. snd (resolveEntry e uid b (cid, d)) = Inr c \<and> conv_id c = cid \<and>
           otherUserId c = other \<and> otherUserName c = ''Unknown'' \<and> otherUserAvatar c = []))"
proof -
  obtain b1 rs where run: "run_all (resolveEntry e uid) b snapshot = (b1, rs)"
    by (cases "run_all (resolveEntry e uid) b snapshot")
  from run_all_results [OF run] have rs: "rs = map (\<lambda>cd. snd (resolveEntry e uid b cd)) snapshot" .
  have rejected: "conversations (fst (snd (onSnapshot_conversations e uid b st snapshot)))
      = conversations st"
    if "\<exists>cd \<in> set snapshot. \<exists>err. snd (resolveEntry e uid b cd) = Inl err"
  proof -
    from that rs obtain err where "Inl err \<in> set rs" by force
    from promise_all_rejects [OF this] obtain err' where "promise_all rs = Inl err'" ..
    with run show ?thesis by (simp add: onSnapshot_conversations_def)
  qed
  have resolved: "map Inr (conversations (fst (snd (onSnapshot_conversations e uid b st snapshot))))
        = map (\<lambda>cd. snd (resolveEntry e uid b cd)) snapshot \<and>
      loading (fst (snd (onSnapshot_conversations e uid b st snapshot))) = False"
    if "\<forall>cd \<in> set snapshot. \<exists>c. snd (resolveEntry e uid b cd) = Inr c"
  proof -
    have "promise_all rs \<noteq> Inl err" for err
    proof
      assume "promise_all rs = Inl err"
      then have "Inl err \<in> set rs" by (rule promise_all_Inl)
      with rs that show False by auto
    qed
    then obtain cs where cs: "promise_all rs = Inr cs" by (cases "promise_all rs") auto
    from promise_all_Inr [OF cs] rs
    have "map Inr cs = map (\<lambda>cd. snd (resolveEntry e uid b cd)) snapshot" by simp
    with run cs show ?thesis by (simp add: onSnapshot_conversations_def)
  qed
  from rejected resolved resolveEntry_absent_profile [of d ps uid other e cid b]
  show ?thesis by blast
qed

theorem inbox_replaced_all_or_nothing_witness:
  "(''c1'', ex_c1) \<in> set ex_inbox_snapshot \<and>
   snd (resolveEntry env_profile_down ''u1'' ex_backend (''c1'', ex_c1)) = Inl FirestoreError \<and>
   conversations (fst (snd (onSnapshot_conversations env_profile_down ''u1'' ex_backend ex_inbox
      ex_inbox_snapshot))) = conversations ex_inbox \<and>
   map conv_id (conversations
     (fst (snd (onSnapshot_conversations ex_env ''u1'' ex_backend ex_inbox ex_inbox_snapshot))))
     = [''c2'', ''c1'']"
proof -
  have m: "(''c1'', ex_c1) \<in> set ex_inbox_snapshot"
    by (simp add: ex_inbox_snapshot_def)
  have r: "snd (resolveEntry env_profile_down ''u1'' ex_backend (''c1'', ex_c1)) = Inl FirestoreError"
    by (simp add: env_profile_down_def ex_backend_def ex_c1_def ex_c2_def ex_thread_def msg_def
        onSnapshot_conversations_def resolveEntry_def getDoc_users_def
        getDocs_messages_def received_def or_default_def doc_path_id)
  from m r have bad: "\<exists>cd \<in> set ex_inbox_snapshot. \<exists>err.
      snd (resolveEntry env_profile_down ''u1'' ex_backend cd) = Inl err"
    by blast
  from inbox_replaced_all_or_nothing
    [of ex_inbox_snapshot env_profile_down "''u1''" ex_backend ex_inbox] bad
  have 1: "conversations (fst (snd (onSnapshot_conversations env_profile_down ''u1'' ex_backend
      ex_inbox ex_inbox_snapshot))) = conversations ex_inbox"
    by blast
  have 2: "map conv_id (conversations
     (fst (snd (onSnapshot_conversations ex_env ''u1'' ex_backend ex_inbox ex_inbox_snapshot))))
     = [''c2'', ''c1'']"
    by (simp add: ex_env_def ex_backend_def ex_c1_def ex_c2_def ex_thread_def msg_def ex_inbox_def ex_inbox_snapshot_def
        onSnapshot_conversations_def resolveEntry_def getDoc_users_def
        getDocs_messages_def received_def or_default_def doc_path_id)
  from m r 1 2 show ?thesis by simp
qed

text \<open>
  With the profile lookup of \<open>u2\<close> rejected, the entry of \<open>c2\<close> resolves, yet the list
  that the listener leaves holds no entry, neither for \<open>c2\<close> nor a degraded one for
  \<open>c1\<close>.
\<close>

theorem rejected_lookup_leaves_inbox_unresolved:
  "rejects env_profile_down (GetDoc_users [''u2'']) \<and>
   snd (resolveEntry env_profile_down ''u1'' ex_backend (''c2'', ex_c2))
     = Inr \<lparr>conv_id = ''c2'', participants = [''u3'', ''u1''], lastMessage = ''ping'',
            lastMessageTime = Some 4, otherUserId = ''u3'', otherUserName = ''Unknown'',
            otherUserAvatar = [], unreadCount = 1\<rparr> \<and>
   conversations (fst (snd (onSnapshot_conversations env_profile_down ''u1'' ex_backend ex_inbox
          [(''c2'', ex_c2), (''c1'', ex_c1)]))) = []"
  by (simp add: env_profile_down_def ex_backend_def ex_c1_def ex_c2_def ex_thread_def msg_def
      ex_inbox_def onSnapshot_conversations_def resolveEntry_def getDoc_users_def
      getDocs_messages_def received_def or_default_def doc_path_id)

section \<open>Opening a thread\<close>

lemma loadConversation_not_found:
  "conversations_coll b cid = None \<Longrightarrow> \<not> rejects e (GetDoc_conversations cid) \<Longrightarrow>
     snd (loadConversation e uid cid b st) =
       st\<lparr>toasts := toasts st @ [\<lparr>title = ''Error'', description = ''Conversation not found''\<rparr>],
          navigated := Some ''/messages''\<rparr>"
  by (simp add: loadConversation_def loadConversation_try_def getDoc_conversations_def Let_def)

lemma loadConversation_ready:
  "conversations_coll b cid \<noteq> None \<or> rejects e (GetDoc_conversations cid) \<Longrightarrow>
     chat_loading (snd (loadConversation e uid cid b st)) = False"
  by (auto simp: loadConversation_def loadConversation_try_def getDoc_conversations_def
      getDoc_users_def Let_def split: option.splits sum.splits list.splits)

lemma loadConversation_profile:
  assumes "conversations_coll b cid = Some d" and "\<not> rejects e (GetDoc_conversations cid)"
    and "d_participants d = Some ps" and "find (\<lambda>i. i \<noteq> uid) ps = Some other"
    and "other \<noteq> []" and "CHR ''/'' \<notin> set other"
    and "\<not> rejects e (GetDoc_users [other])"
  shows "snd (loadConversation e uid cid b st) =
     (case users_coll b other of
        None \<Rightarrow> st\<lparr>chat_loading := False\<rparr>
      | Some u \<Rightarrow> st\<lparr>otherUser := Some \<lparr>other_id = other,
                                         username = or_default (u_username u) ''Unknown'',
                                         avatarUrl = or_default (u_avatarUrl u) []\<rparr>,
                     chat_loading := False\<rparr>)"
  using assms
  by (simp add: loadConversation_def loadConversation_try_def getDoc_conversations_def
      getDoc_users_def Let_def doc_path_id split: option.splits)

text \<open>
  C4. The thread's loader at an existing conversation whose other participant has no
  profile record: \<open>u1\<close> opens \<open>c2\<close>, and \<open>u3\<close> has no record. The loader leaves the
  Loading state (\<open>chat_loading = False\<close>), but it exposes no other participant:
  \<open>otherUser\<close> is still \<open>None\<close>, not a participant with the name \<open>Unknown\<close> and an
  empty avatar, which is what the inbox callback gives for the same conversation. From
  that state a send returns at its guard: nothing is sent and the draft stays.
\<close>

theorem absent_profile_exposes_no_participant:
  "conversations_coll ex_backend ''c2'' = Some ex_c2 \<and>
   d_participants ex_c2 = Some [''u3'', ''u1''] \<and>
   users_coll ex_backend ''u3'' = None \<and>
   snd (loadConversation ex_env ''u1'' ''c2'' ex_backend ex_chat)
     = \<lparr>messages = [], newMessage = [], otherUser = None, chat_loading = False,
        toasts = [], navigated = None\<rparr> \<and>
   snd (resolveEntry ex_env ''u1'' ex_backend (''c2'', ex_c2))
     = Inr \<lparr>conv_id = ''c2'', participants = [''u3'', ''u1''], lastMessage = ''ping'',
            lastMessageTime = Some 4, otherUserId = ''u3'', otherUserName = ''Unknown'',
            otherUserAvatar = [], unreadCount = 1\<rparr> \<and>
   handleSendMessage ex_env (Some ''u1'') (Some ''c2'') ex_backend
       \<lparr>messages = [], newMessage = ''hi'', otherUser = None, chat_loading = False,
        toasts = [], navigated = None\<rparr>
     = (ex_backend,
        \<lparr>messages = [], newMessage = ''hi'', otherUser = None, chat_loading = False,
         toasts = [], navigated = None\<rparr>)"
  by (simp add: ex_env_def ex_backend_def ex_c1_def ex_c2_def ex_thread_def msg_def ex_chat_def
      loadConversation_def loadConversation_try_def getDoc_conversations_def
      getDoc_users_def getDocs_messages_def resolveEntry_def received_def or_default_def
      doc_path_id handleSendMessage_def)

end
